theory Spec2Isabelle
  imports Main "HOL-Library.Sublist"
begin

section \<open>JavaScript values used by the agent core\<close>

text \<open>
  An error object, as the core reads it: its \<^verbatim>\<open>message\<close>, and the two places where
  \<^verbatim>\<open>LLMClient.shouldRetry\<close> looks for an HTTP status (\<^verbatim>\<open>error.status\<close> and
  \<^verbatim>\<open>error.response?.status\<close>). A computation that throws error objects only returns
  \<open>js_error + 'a\<close>, with \<open>Inl\<close> for the thrown error.
\<close>

record js_error =
  message :: string
  err_status :: "nat option"
  err_response_status :: "nat option"

definition Error :: "string \<Rightarrow> js_error" where
  "Error msg = \<lparr>message = msg, err_status = None, err_response_status = None\<rparr>"

text \<open>
  JavaScript can throw any value. What the functions of a tool throw is either an object,
  with its message (\<open>Raised\<close>; a thrown value without a message has the empty one), or
  \<^verbatim>\<open>null\<close> or \<^verbatim>\<open>undefined\<close>, as a promise rejected without a reason does. Reading a property
  of \<^verbatim>\<open>null\<close> or \<^verbatim>\<open>undefined\<close> throws a \<^verbatim>\<open>TypeError\<close> with the message below.
\<close>

datatype thrown = Raised js_error | Null | Undefined

definition type_error_message :: "string \<Rightarrow> string \<Rightarrow> string" where
  "type_error_message v property =
     ''Cannot read properties of '' @ v @ '' (reading '' @ [CHR 0x27] @ property
       @ [CHR 0x27] @ '')''"

text \<open>\<^verbatim>\<open>String.prototype.includes\<close>: does \<open>sub\<close> occur in \<open>s\<close> as a contiguous substring.\<close>

fun str_includes :: "string \<Rightarrow> string \<Rightarrow> bool" where
  "str_includes [] sub = (sub = [])"
| "str_includes (c # cs) sub = (prefix sub (c # cs) \<or> str_includes cs sub)"

text \<open>
  \<^verbatim>\<open>String.prototype.toLowerCase\<close> on strings of 8-bit code units: the letters A to Z and the
  Latin-1 capitals (U+00C0 to U+00DE, without the multiplication sign U+00D7) move up by 32,
  every other code unit stays.
\<close>

definition lower_char :: "char \<Rightarrow> char" where
  "lower_char c =
     (let n = (of_char c :: nat) in
      if (65 \<le> n \<and> n \<le> 90) \<or> (192 \<le> n \<and> n \<le> 222 \<and> n \<noteq> 215)
      then char_of (n + 32) else c)"

definition toLowerCase :: "string \<Rightarrow> string" where
  "toLowerCase s = map lower_char s"

text \<open>\<^verbatim>\<open>Array.prototype.join\<close> on an array of strings.\<close>

fun join :: "string list \<Rightarrow> string \<Rightarrow> string" where
  "join [] sep = []"
| "join [x] sep = x"
| "join (x # y # ys) sep = x @ sep @ join (y # ys) sep"

section \<open>Tool registry (tools/registry.ts)\<close>

datatype RiskLevel = low | medium | high

text \<open>
  \<^verbatim>\<open>ToolResult\<close>. \<^verbatim>\<open>metadata\<close> is never read by the core and is left out.
\<close>

record 'd ToolResult =
  success :: bool
  data :: "'d option"
  error :: "string option"

text \<open>\<^verbatim>\<open>ValidationResult\<close>.\<close>

record ValidationResult =
  valid :: bool
  errors :: "string list option"

text \<open>
  \<^verbatim>\<open>ExecutionContext\<close>: the fields the core reads or writes. \<^verbatim>\<open>approved\<close> is optional,
  and an absent flag is falsy.
\<close>

record ExecutionContext =
  taskId :: "string option"
  approved :: "bool option"

text \<open>
  \<^verbatim>\<open>ToolDefinition\<close>. \<open>safeParse\<close> stands for \<^verbatim>\<open>tool.parameters.safeParse\<close>: it may throw, it
  may fail with the message of the schema error (\<open>Inr (Inl msg)\<close>), or it returns the parsed
  data (\<open>Inr (Inr d)\<close>). \<open>validate\<close> is the optional custom validator and \<open>execute\<close> the tool's
  operation; both may throw (or reject) any value, which is \<open>Inl\<close>.
\<close>

record ('p, 'd) ToolDefinition =
  tool_name :: string
  safeParse :: "'p \<Rightarrow> thrown + (string + 'p)"
  requiresApproval :: bool
  riskLevel :: RiskLevel
  execute :: "'p \<Rightarrow> ExecutionContext \<Rightarrow> thrown + 'd ToolResult"
  validate :: "('p \<Rightarrow> thrown + ValidationResult) option"

text \<open>
  What an invocation does besides returning: the calls into the tool's own functions, the
  metric it records (\<^verbatim>\<open>recordToolMetric(name, status, duration)\<close>, without the duration) and
  the approval request the planner emits.
\<close>

datatype effect =
    SafeParse string
  | Validate string
  | Execute string
  | ToolMetric string bool
  | ApprovalRequested string string

type_synonym ('p, 'd) registry = "string \<rightharpoonup> ('p, 'd) ToolDefinition"

definition failure :: "string \<Rightarrow> 'd ToolResult" where
  "failure msg = \<lparr>success = False, data = None, error = Some msg\<rparr>"

text \<open>
  The body of the \<^verbatim>\<open>try\<close> block of \<^verbatim>\<open>ToolRegistry.executeTool\<close>, stage by stage. Each stage
  returns the effects so far and either a thrown error or a result.
\<close>

definition run_tool ::
  "('p, 'd) ToolDefinition \<Rightarrow> string \<Rightarrow> 'p \<Rightarrow> ExecutionContext
     \<Rightarrow> (thrown + 'd ToolResult) \<times> effect list" where
  "run_tool tool name parsed context =
     (if requiresApproval tool \<and> approved context \<noteq> Some True
      then (Inr (failure ''Tool requires approval''), [ToolMetric name False])
      else (case execute tool parsed context of
              Inl e \<Rightarrow> (Inl e, [Execute name])
            | Inr result \<Rightarrow> (Inr result, [Execute name, ToolMetric name (success result)])))"

definition custom_validation ::
  "('p, 'd) ToolDefinition \<Rightarrow> string \<Rightarrow> 'p \<Rightarrow> ExecutionContext
     \<Rightarrow> (thrown + 'd ToolResult) \<times> effect list" where
  "custom_validation tool name parsed context =
     (case validate tool of
        None \<Rightarrow> run_tool tool name parsed context
      | Some v \<Rightarrow>
          (case v parsed of
             Inl e \<Rightarrow> (Inl e, [Validate name])
           | Inr validationResult \<Rightarrow>
               if \<not> valid validationResult
               then (Inr (failure (''Validation failed: '' @
                            (case errors validationResult of
                               None \<Rightarrow> ''undefined''
                             | Some es \<Rightarrow> join es '', ''))),
                     [Validate name, ToolMetric name False])
               else (let (r, fx) = run_tool tool name parsed context
                     in (r, Validate name # fx))))"

definition try_block ::
  "('p, 'd) ToolDefinition \<Rightarrow> string \<Rightarrow> 'p \<Rightarrow> ExecutionContext
     \<Rightarrow> (thrown + 'd ToolResult) \<times> effect list" where
  "try_block tool name params context =
     (case safeParse tool params of
        Inl e \<Rightarrow> (Inl e, [SafeParse name])
      | Inr (Inl msg) \<Rightarrow>
          (Inr (failure (''Invalid parameters: '' @ msg)),
           [SafeParse name, ToolMetric name False])
      | Inr (Inr parsed) \<Rightarrow>
          (let (r, fx) = custom_validation tool name parsed context
           in (r, SafeParse name # fx)))"

text \<open>
  The \<^verbatim>\<open>catch\<close> handler of \<^verbatim>\<open>ToolRegistry.executeTool\<close> returns a failure with the text
  \<^verbatim>\<open>error.message || 'Unknown error occurred'\<close> (an empty message is falsy). Nothing guards
  the reading of \<^verbatim>\<open>error.message\<close>: when the caught value is \<^verbatim>\<open>null\<close> or \<^verbatim>\<open>undefined\<close> the
  handler itself throws a \<^verbatim>\<open>TypeError\<close>, which leaves \<^verbatim>\<open>executeTool\<close>.
\<close>

definition caught_message :: "js_error \<Rightarrow> string" where
  "caught_message e = (if message e \<noteq> [] then message e else ''Unknown error occurred'')"

definition catch_handler :: "thrown \<Rightarrow> thrown + 'd ToolResult" where
  "catch_handler v =
     (case v of
        Raised e \<Rightarrow> Inr (failure (caught_message e))
      | Null \<Rightarrow> Inl (Raised (Error (type_error_message ''null'' ''message'')))
      | Undefined \<Rightarrow> Inl (Raised (Error (type_error_message ''undefined'' ''message''))))"

text \<open>
  \<^verbatim>\<open>ToolRegistry.executeTool\<close>: the lookup, the \<^verbatim>\<open>try\<close> block, and the \<^verbatim>\<open>catch\<close> handler,
  which records a failure metric before it builds its result.
\<close>

definition executeTool ::
  "('p, 'd) registry \<Rightarrow> string \<Rightarrow> 'p \<Rightarrow> ExecutionContext
     \<Rightarrow> (thrown + 'd ToolResult) \<times> effect list" where
  "executeTool tools name params context =
     (case tools name of
        None \<Rightarrow> (Inr (failure (''Tool not found: '' @ name)), [ToolMetric name False])
      | Some tool \<Rightarrow>
          (case try_block tool name params context of
             (Inl v, fx) \<Rightarrow> (catch_handler v, fx @ [ToolMetric name False])
           | (Inr result, fx) \<Rightarrow> (Inr result, fx)))"

section \<open>Tool dispatch by the planner (planner/react.ts)\<close>

text \<open>
  \<^verbatim>\<open>Planner.executeTool\<close>. \<open>decision\<close> is the value the promise of
  \<^verbatim>\<open>requestApproval\<close> resolves with: \<open>True\<close> after \<^verbatim>\<open>approveAction\<close>, \<open>False\<close> after
  \<^verbatim>\<open>denyAction\<close> or the 30 second timer. The request itself is the effect
  \<open>ApprovalRequested taskId tool\<close> (the \<^verbatim>\<open>approval:requested\<close> event). What
  \<^verbatim>\<open>ToolRegistry.executeTool\<close> throws leaves \<^verbatim>\<open>Planner.executeTool\<close> as well.
\<close>

definition Planner_executeTool ::
  "('p, 'd) registry \<Rightarrow> bool \<Rightarrow> string \<Rightarrow> string \<Rightarrow> 'p
     \<Rightarrow> (thrown + 'd ToolResult) \<times> effect list" where
  "Planner_executeTool tools decision task toolName parameters =
     (case tools toolName of
        None \<Rightarrow> (Inr (failure (''Tool not found: '' @ toolName)), [])
      | Some tool \<Rightarrow>
          if requiresApproval tool
          then (if \<not> decision
                then (Inr (failure ''Tool execution denied by user''),
                      [ApprovalRequested task toolName])
                else (let (r, fx) = executeTool tools toolName parameters
                                      \<lparr>taskId = Some task, approved = Some True\<rparr>
                      in (r, ApprovalRequested task toolName # fx)))
          else executeTool tools toolName parameters
                 \<lparr>taskId = Some task, approved = Some True\<rparr>)"

text \<open>
  The built-in \<^verbatim>\<open>exec\<close> tool of the registry, with the command string as its parameter:
  it requires approval, has risk level high, and its validator rejects the commands that
  contain one of four dangerous substrings.
\<close>

definition exec_validate :: "string \<Rightarrow> thrown + ValidationResult" where
  "exec_validate command =
     (let isDangerous = list_ex (\<lambda>cmd. str_includes command cmd)
                          [''rm -rf /'', ''sudo rm'', ''format'', ''dd if='']
      in Inr \<lparr>valid = \<not> isDangerous,
              errors = (if isDangerous then Some [''Potentially dangerous command detected'']
                        else None)\<rparr>)"

definition exec_tool :: "(string, string) ToolDefinition" where
  "exec_tool =
     \<lparr>tool_name = ''exec'',
      safeParse = (\<lambda>command. Inr (Inr command)),
      requiresApproval = True,
      riskLevel = high,
      execute = (\<lambda>command context.
                   Inr \<lparr>success = True, data = Some ''Command output here'', error = None\<rparr>),
      validate = Some exec_validate\<rparr>"

text \<open>
  A tool whose operation throws an error with an empty message, as \<^verbatim>\<open>throw new Error()\<close>
  does.
\<close>

definition silent_tool :: "(string, string) ToolDefinition" where
  "silent_tool =
     \<lparr>tool_name = ''silent'',
      safeParse = (\<lambda>p. Inr (Inr p)),
      requiresApproval = False,
      riskLevel = low,
      execute = (\<lambda>p context. Inl (Raised (Error []))),
      validate = None\<rparr>"

text \<open>A tool whose operation rejects without a reason, as \<^verbatim>\<open>Promise.reject()\<close> does.\<close>

definition rejecting_tool :: "(string, string) ToolDefinition" where
  "rejecting_tool =
     \<lparr>tool_name = ''rejecting'',
      safeParse = (\<lambda>p. Inr (Inr p)),
      requiresApproval = False,
      riskLevel = low,
      execute = (\<lambda>p context. Inl Undefined),
      validate = None\<rparr>"

text \<open>A registry that holds the three tools.\<close>

definition example_tools :: "(string, string) registry" where
  "example_tools =
     [''exec'' \<mapsto> exec_tool, ''silent'' \<mapsto> silent_tool, ''rejecting'' \<mapsto> rejecting_tool]"

section \<open>Tasks and the reasoning loop (planner/react.ts)\<close>

datatype TaskStatus = queued | running | pending_approval | completed | failed

text \<open>
  \<^verbatim>\<open>PlanStep\<close>: the fields the loop reads. \<^verbatim>\<open>actionInput\<close>, \<^verbatim>\<open>result\<close>, \<^verbatim>\<open>approved\<close> and
  \<^verbatim>\<open>timestamp\<close> are not read by the loop control and are left out.
\<close>

record PlanStep =
  step_id :: string
  thought :: string
  action :: "string option"
  observation :: "string option"
  step_error :: "string option"

text \<open>
  \<^verbatim>\<open>Task\<close>. \<open>history\<close> is not a field of the source: it lists every value assigned to
  \<^verbatim>\<open>task.status\<close>, in order, so that statements about transitions can be made.
  \<^verbatim>\<open>result\<close>, \<^verbatim>\<open>context\<close>, \<^verbatim>\<open>constraints\<close> and the two timestamps are left out.
\<close>

record Task =
  task_id :: string
  instruction :: string
  status :: TaskStatus
  steps :: "PlanStep list"
  task_error :: "string option"
  task_timeout :: int
  history :: "TaskStatus list"

record TaskRequest =
  req_instruction :: string
  req_timeout :: "int option"

text \<open>
  What the planner emits and records: the \<^verbatim>\<open>task:*\<close> events with the id of their task, and
  the calls of \<^verbatim>\<open>recordTaskMetric\<close>. Emitting, recording and logging are taken not to throw.
\<close>

datatype planner_event =
    TaskCreated string
  | TaskStarted string
  | TaskStep string
  | TaskCompleted string
  | TaskFailed string
  | TaskMetricSucceeded
  | TaskMetricFailed

text \<open>
  The fields of \<^verbatim>\<open>Planner\<close> that \<^verbatim>\<open>executeTask\<close> uses. The map \<^verbatim>\<open>tasks\<close> holds a reference to
  the task object, so every mutation of a task is visible through it; the model writes the
  task back (\<open>store\<close>) at every mutation.
\<close>

record Planner =
  tasks :: "string \<rightharpoonup> Task"
  concurrentTasks :: int
  maxIterations :: nat
  maxConcurrentTasks :: int
  emitted :: "planner_event list"

definition new_Planner :: Planner where
  "new_Planner =
     \<lparr>tasks = Map.empty, concurrentTasks = 0, maxIterations = 15,
      maxConcurrentTasks = 3, emitted = []\<rparr>"

definition store :: "Task \<Rightarrow> Planner \<Rightarrow> Planner" where
  "store t p = p\<lparr>tasks := (tasks p)(task_id t \<mapsto> t)\<rparr>"

definition emit :: "planner_event \<Rightarrow> Planner \<Rightarrow> Planner" where
  "emit ev p = p\<lparr>emitted := emitted p @ [ev]\<rparr>"

definition set_status :: "TaskStatus \<Rightarrow> Task \<Rightarrow> Task" where
  "set_status s t = t\<lparr>status := s, history := history t @ [s]\<rparr>"

text \<open>Truthiness of an optional string: \<^verbatim>\<open>undefined\<close> and the empty string are falsy.\<close>

definition truthy :: "string option \<Rightarrow> bool" where
  "truthy v = (case v of None \<Rightarrow> False | Some s \<Rightarrow> s \<noteq> [])"

text \<open>\<^verbatim>\<open>Array.prototype.slice(-n)\<close>: the last \<open>n\<close> elements, all of them when there are fewer.\<close>

definition slice_last :: "nat \<Rightarrow> 'a list \<Rightarrow> 'a list" where
  "slice_last n xs = drop (length xs - n) xs"

definition completion_phrase :: "string \<Rightarrow> bool" where
  "completion_phrase th =
     (str_includes (toLowerCase th) ''task complete''
      \<or> str_includes (toLowerCase th) ''successfully completed'')"

text \<open>
  \<^verbatim>\<open>Planner.isTaskComplete\<close>: \<open>Inr True\<close> when the thought of the last step holds a completion
  phrase; otherwise it throws when the last three steps all carry a truthy error, and
  returns \<open>Inr False\<close> when they do not. With no step at all \<^verbatim>\<open>lastStep\<close> is undefined and
  the first test is falsy.
\<close>

definition isTaskComplete :: "Task \<Rightarrow> js_error + bool" where
  "isTaskComplete t =
     (if (case steps t of [] \<Rightarrow> False | _ \<Rightarrow> completion_phrase (thought (last (steps t))))
      then Inr True
      else if 3 \<le> length (filter (\<lambda>s. truthy (step_error s)) (slice_last 3 (steps t)))
      then Inl (Error ''Too many consecutive errors'')
      else Inr False)"

text \<open>
  What one call of \<^verbatim>\<open>executeTask\<close> takes from outside: the id \<^verbatim>\<open>uuidv4()\<close> gives the task, the
  clock reading \<^verbatim>\<open>startTime\<close>, the clock reading at the timeout check of each iteration, and
  the step \<^verbatim>\<open>generateNextStep\<close> returns in each iteration (it catches every error of the
  provider and of the tools and always returns a step). Iterations count from 1, as the
  source's \<^verbatim>\<open>iteration\<close> after its increment.
\<close>

record TaskEnv =
  uuid :: string
  startTime :: int
  now :: "nat \<Rightarrow> int"
  generateNextStep :: "nat \<Rightarrow> PlanStep"

text \<open>
  The generator object \<^verbatim>\<open>executeTask\<close> returns. Its body does not run before the first
  \<^verbatim>\<open>next()\<close>; afterwards it is suspended at the \<^verbatim>\<open>yield\<close> of some iteration, or finished.
  \<open>task\<close> is the local variable \<^verbatim>\<open>task\<close>, kept after the generator has finished.
\<close>

datatype gen_phase = NotStarted | AtYield nat | Finished

record Generator =
  request :: TaskRequest
  env :: TaskEnv
  phase :: gen_phase
  task :: "Task option"

text \<open>
  The result of \<^verbatim>\<open>next()\<close> or \<^verbatim>\<open>return()\<close>: a yielded step, or \<^verbatim>\<open>done\<close> with the returned task
  (\<open>None\<close> for \<^verbatim>\<open>{value: undefined, done: true}\<close>).
\<close>

datatype iter_result = Yielded PlanStep | Done "Task option"

definition executeTask :: "TaskRequest \<Rightarrow> TaskEnv \<Rightarrow> Generator" where
  "executeTask req e = \<lparr>request = req, env = e, phase = NotStarted, task = None\<rparr>"

text \<open>The \<^verbatim>\<open>finally\<close> block.\<close>

definition finally_block :: "Task \<Rightarrow> Planner \<Rightarrow> Planner" where
  "finally_block t p = store t (p\<lparr>concurrentTasks := concurrentTasks p - 1\<rparr>)"

text \<open>An error thrown inside the \<^verbatim>\<open>try\<close> block: the \<^verbatim>\<open>catch\<close> block, \<^verbatim>\<open>finally\<close>, \<^verbatim>\<open>return task\<close>.\<close>

definition finish_failed ::
  "js_error \<Rightarrow> Task \<Rightarrow> Generator \<Rightarrow> Planner \<Rightarrow> iter_result \<times> Generator \<times> Planner" where
  "finish_failed e t g p =
     (let t' = (set_status failed t)\<lparr>task_error := Some (message e)\<rparr>;
          p' = emit (TaskFailed (task_id t')) (emit TaskMetricFailed (store t' p))
      in (Done (Some t'), g\<lparr>phase := Finished, task := Some t'\<rparr>, finally_block t' p'))"

text \<open>The end of the \<^verbatim>\<open>try\<close> block after the loop, \<^verbatim>\<open>finally\<close>, \<^verbatim>\<open>return task\<close>.\<close>

definition finish_completed ::
  "Task \<Rightarrow> Generator \<Rightarrow> Planner \<Rightarrow> iter_result \<times> Generator \<times> Planner" where
  "finish_completed t g p =
     (let t' = set_status completed t;
          p' = emit (TaskCompleted (task_id t')) (emit TaskMetricSucceeded (store t' p))
      in (Done (Some t'), g\<lparr>phase := Finished, task := Some t'\<rparr>, finally_block t' p'))"

text \<open>
  The \<^verbatim>\<open>while\<close> loop from the test of its condition to the next \<^verbatim>\<open>yield\<close>, or past the loop
  to the end of the function.
\<close>

definition loop_head ::
  "nat \<Rightarrow> bool \<Rightarrow> Task \<Rightarrow> Generator \<Rightarrow> Planner \<Rightarrow> iter_result \<times> Generator \<times> Planner" where
  "loop_head iteration isComplete t g p =
     (if \<not> isComplete \<and> iteration < maxIterations p
      then (let iteration' = iteration + 1 in
            if now (env g) iteration' - startTime (env g) > task_timeout t * 1000
            then finish_failed (Error ''Task execution timeout'') t g p
            else (let step = generateNextStep (env g) iteration';
                      t' = t\<lparr>steps := steps t @ [step]\<rparr>
                  in (Yielded step, g\<lparr>phase := AtYield iteration', task := Some t'\<rparr>,
                      store t' p)))
      else if maxIterations p \<le> iteration
      then finish_failed (Error ''Maximum iterations reached'') t g p
      else finish_completed t g p)"

text \<open>The first \<^verbatim>\<open>next()\<close>: the function body from its start.\<close>

definition start :: "Generator \<Rightarrow> Planner \<Rightarrow> iter_result \<times> Generator \<times> Planner" where
  "start g p =
     (let t0 = \<lparr>task_id = uuid (env g),
                instruction = req_instruction (request g),
                status = queued,
                steps = [],
                task_error = None,
                task_timeout = (case req_timeout (request g) of
                                  None \<Rightarrow> 300
                                | Some n \<Rightarrow> if n = 0 then 300 else n),
                history = [queued]\<rparr>;
          p1 = emit (TaskCreated (task_id t0)) (store t0 p)
      in if maxConcurrentTasks p1 \<le> concurrentTasks p1
         then (let t1 = (set_status failed t0)
                          \<lparr>task_error := Some ''Maximum concurrent tasks reached''\<rparr>;
                   p2 = emit TaskMetricFailed (emit (TaskFailed (task_id t1)) (store t1 p1))
               in (Done (Some t1), g\<lparr>phase := Finished, task := Some t1\<rparr>, p2))
         else (let p2 = p1\<lparr>concurrentTasks := concurrentTasks p1 + 1\<rparr>;
                   t1 = set_status running t0;
                   p3 = emit (TaskStarted (task_id t1)) (store t1 p2)
               in loop_head 0 False t1 g p3))"

text \<open>A \<^verbatim>\<open>next()\<close> at a \<^verbatim>\<open>yield\<close>: the rest of the iteration, then the loop again.\<close>

definition resume ::
  "nat \<Rightarrow> Task \<Rightarrow> Generator \<Rightarrow> Planner \<Rightarrow> iter_result \<times> Generator \<times> Planner" where
  "resume iteration t g p =
     (case isTaskComplete t of
        Inl e \<Rightarrow> finish_failed e t g p
      | Inr isComplete \<Rightarrow>
          loop_head iteration isComplete t g (emit (TaskStep (task_id t)) (store t p)))"

text \<open>
  \<^verbatim>\<open>next()\<close> on the generator. A generator at a \<^verbatim>\<open>yield\<close> always has its task; the case
  without one is there to make the function total.
\<close>

definition gen_next :: "Generator \<Rightarrow> Planner \<Rightarrow> iter_result \<times> Generator \<times> Planner" where
  "gen_next g p =
     (case phase g of
        NotStarted \<Rightarrow> start g p
      | AtYield iteration \<Rightarrow>
          (case task g of
             Some t \<Rightarrow> resume iteration t g p
           | None \<Rightarrow> (Done None, g\<lparr>phase := Finished\<rparr>, p))
      | Finished \<Rightarrow> (Done None, g, p))"

text \<open>
  \<^verbatim>\<open>return()\<close> on the generator, which is also what leaving a \<^verbatim>\<open>for await\<close> loop with
  \<^verbatim>\<open>break\<close> calls: at a \<^verbatim>\<open>yield\<close> inside the \<^verbatim>\<open>try\<close> block only the \<^verbatim>\<open>finally\<close> block runs.
\<close>

definition gen_return :: "Generator \<Rightarrow> Planner \<Rightarrow> iter_result \<times> Generator \<times> Planner" where
  "gen_return g p =
     (case phase g of
        NotStarted \<Rightarrow> (Done None, g\<lparr>phase := Finished\<rparr>, p)
      | AtYield iteration \<Rightarrow>
          (case task g of
             Some t \<Rightarrow> (Done None, g\<lparr>phase := Finished\<rparr>, finally_block t p)
           | None \<Rightarrow> (Done None, g\<lparr>phase := Finished\<rparr>, p))
      | Finished \<Rightarrow> (Done None, g, p))"

text \<open>A consumer is a list of calls on the generator.\<close>

datatype call = Next | Return

fun consume :: "call list \<Rightarrow> Generator \<times> Planner \<Rightarrow> Generator \<times> Planner" where
  "consume [] gp = gp"
| "consume (Next # cs) (g, p) = consume cs (snd (gen_next g p))"
| "consume (Return # cs) (g, p) = consume cs (snd (gen_return g p))"

text \<open>
  Several tasks: the planner and the generators made so far. A call of \<^verbatim>\<open>executeTask\<close> makes
  a generator, and the consumers call \<^verbatim>\<open>next()\<close> and \<^verbatim>\<open>return()\<close> on the generators in any
  order. The counter and the status of a task change only in the synchronous parts of a
  \<^verbatim>\<open>next()\<close>, so each call is one step here.
\<close>

record System =
  planner :: Planner
  generators :: "Generator list"

datatype sys_call = Create TaskRequest TaskEnv | NextOf nat | ReturnOf nat

fun sys_step :: "sys_call \<Rightarrow> System \<Rightarrow> System" where
  "sys_step (Create req e) s = s\<lparr>generators := generators s @ [executeTask req e]\<rparr>"
| "sys_step (NextOf k) s =
     (if k < length (generators s)
      then (let (r, g, p) = gen_next (generators s ! k) (planner s)
            in \<lparr>planner = p, generators = (generators s)[k := g]\<rparr>)
      else s)"
| "sys_step (ReturnOf k) s =
     (if k < length (generators s)
      then (let (r, g, p) = gen_return (generators s ! k) (planner s)
            in \<lparr>planner = p, generators = (generators s)[k := g]\<rparr>)
      else s)"

fun sys_run :: "sys_call list \<Rightarrow> System \<Rightarrow> System" where
  "sys_run [] s = s"
| "sys_run (c # cs) s = sys_run cs (sys_step c s)"

definition new_System :: System where
  "new_System = \<lparr>planner = new_Planner, generators = []\<rparr>"

section \<open>Approval requests (planner/react.ts)\<close>

text \<open>
  \<^verbatim>\<open>ApprovalRequest\<close>, without the parameters snapshot and the timestamp. Its \<^verbatim>\<open>callback\<close>
  is the function \<open>callback\<close> below. The events are the three \<^verbatim>\<open>approval:*\<close> events with
  the id of the request, and the warning that the timer logs when it resolves a request.
\<close>

record ApprovalRequest =
  approval_id :: string
  approval_taskId :: string
  approval_tool :: string
  approval_riskLevel :: RiskLevel

datatype approval_event =
    ApprovalRequestedEvent string
  | ApprovalGranted string
  | ApprovalDenied string "string option"
  | ApprovalTimeoutLogged string

text \<open>
  The part of the planner that approvals use: the map \<^verbatim>\<open>approvalQueue\<close>, the events, and
  \<open>resolved\<close>, which lists the calls of each promise's \<^verbatim>\<open>resolve\<close> as the id of the request
  and the value passed.
\<close>

record ApprovalBroker =
  approvalQueue :: "string \<rightharpoonup> ApprovalRequest"
  resolved :: "(string \<times> bool) list"
  approval_events :: "approval_event list"

definition new_ApprovalBroker :: ApprovalBroker where
  "new_ApprovalBroker = \<lparr>approvalQueue = Map.empty, resolved = [], approval_events = []\<rparr>"

definition resolve :: "string \<Rightarrow> bool \<Rightarrow> ApprovalBroker \<Rightarrow> ApprovalBroker" where
  "resolve rid v b = b\<lparr>resolved := resolved b @ [(rid, v)]\<rparr>"

text \<open>
  The \<^verbatim>\<open>callback\<close> of a request: it deletes the request's own id from the queue and
  resolves the promise.
\<close>

definition callback :: "ApprovalRequest \<Rightarrow> bool \<Rightarrow> ApprovalBroker \<Rightarrow> ApprovalBroker" where
  "callback req v b =
     resolve (approval_id req) v
       (b\<lparr>approvalQueue := (approvalQueue b)(approval_id req := None)\<rparr>)"

text \<open>
  \<^verbatim>\<open>Planner.requestApproval\<close> up to the point where it waits: the request is stored under
  its id \<open>rid\<close> (from \<^verbatim>\<open>uuidv4()\<close>) and announced, and the timer is set.
\<close>

definition requestApproval ::
  "string \<Rightarrow> string \<Rightarrow> string \<Rightarrow> RiskLevel \<Rightarrow> ApprovalBroker \<Rightarrow> ApprovalBroker" where
  "requestApproval rid tid tool risk b =
     (let req = \<lparr>approval_id = rid, approval_taskId = tid, approval_tool = tool,
                 approval_riskLevel = risk\<rparr>
      in b\<lparr>approvalQueue := (approvalQueue b)(rid \<mapsto> req),
           approval_events := approval_events b @ [ApprovalRequestedEvent rid]\<rparr>)"

text \<open>The body of the timer that \<^verbatim>\<open>requestApproval\<close> sets for the request \<open>rid\<close>.\<close>

definition timer_fires :: "string \<Rightarrow> ApprovalBroker \<Rightarrow> ApprovalBroker" where
  "timer_fires rid b =
     (if approvalQueue b rid \<noteq> None
      then resolve rid False
             (b\<lparr>approvalQueue := (approvalQueue b)(rid := None),
                approval_events := approval_events b @ [ApprovalTimeoutLogged rid]\<rparr>)
      else b)"

definition approveAction :: "string \<Rightarrow> ApprovalBroker \<Rightarrow> bool \<times> ApprovalBroker" where
  "approveAction approvalId b =
     (case approvalQueue b approvalId of
        Some req \<Rightarrow>
          (let b' = callback req True b
           in (True, b'\<lparr>approval_events := approval_events b' @ [ApprovalGranted approvalId]\<rparr>))
      | None \<Rightarrow> (False, b))"

definition denyAction ::
  "string \<Rightarrow> string option \<Rightarrow> ApprovalBroker \<Rightarrow> bool \<times> ApprovalBroker" where
  "denyAction approvalId reason b =
     (case approvalQueue b approvalId of
        Some req \<Rightarrow>
          (let b' = callback req False b
           in (True,
               b'\<lparr>approval_events := approval_events b' @ [ApprovalDenied approvalId reason]\<rparr>))
      | None \<Rightarrow> (False, b))"

text \<open>
  Anything that can happen to the broker, in any order: a new request, a decision from
  outside, a timer going off.
\<close>

datatype broker_call =
    Request string string string RiskLevel
  | Approve string
  | Deny string "string option"
  | Timer string

fun broker_step :: "broker_call \<Rightarrow> ApprovalBroker \<Rightarrow> ApprovalBroker" where
  "broker_step (Request rid tid tool risk) b = requestApproval rid tid tool risk b"
| "broker_step (Approve rid) b = snd (approveAction rid b)"
| "broker_step (Deny rid reason) b = snd (denyAction rid reason b)"
| "broker_step (Timer rid) b = timer_fires rid b"

fun broker_run :: "broker_call list \<Rightarrow> ApprovalBroker \<Rightarrow> ApprovalBroker" where
  "broker_run [] b = b"
| "broker_run (c # cs) b = broker_run cs (broker_step c b)"

text \<open>The ids that the requests of a list of calls use; \<^verbatim>\<open>uuidv4()\<close> never repeats one.\<close>

fun request_ids :: "broker_call list \<Rightarrow> string list" where
  "request_ids [] = []"
| "request_ids (Request rid tid tool risk # cs) = rid # request_ids cs"
| "request_ids (c # cs) = request_ids cs"

section \<open>Reasoning provider client (class LLMClient, in llm/prompts.ts)\<close>

record Usage =
  prompt_tokens :: nat
  completion_tokens :: nat
  total_tokens :: nat

text \<open>\<^verbatim>\<open>ToolCall\<close> and \<^verbatim>\<open>LLMResponse\<close>; \<open>'j\<close> is the type of parsed JSON. The estimated cost, a
  floating point number, is left out of the usage and of the metrics.\<close>

record 'j ToolCall =
  call_id :: string
  call_name :: string
  arguments :: 'j

record 'j LLMResponse =
  content :: string
  toolCalls :: "'j ToolCall list option"
  usage :: "Usage option"

text \<open>What the provider sends back for a call that is not streamed.\<close>

record RawToolCall =
  raw_id :: string
  raw_name :: string
  raw_arguments :: string

record Message =
  msg_content :: "string option"
  tool_calls :: "RawToolCall list option"

record Completion =
  choices :: "Message list"
  completion_usage :: "Usage option"

text \<open>\<^verbatim>\<open>recordLLMMetric(model, status, promptTokens, completionTokens, ...)\<close>.\<close>

datatype llm_metric = LLMMetric string bool nat nat

text \<open>
  What one call of \<^verbatim>\<open>chat\<close> takes from outside. \<open>create k model\<close> is the outcome of
  \<^verbatim>\<open>client.chat.completions.create\<close> in the attempt number \<open>k\<close> of this call (0 for the
  primary model) when the call is not streamed. \<open>create_stream k model\<close> is the outcome when
  it is streamed: the request may throw, and otherwise \<^verbatim>\<open>handleStreamingResponse\<close> either
  throws or returns the assembled response, which carries a usage exactly when the stream
  did. \<open>json_parse\<close> is \<^verbatim>\<open>JSON.parse\<close>. The two clock readings are the times in milliseconds
  at which the cache is read and written. What the provider's client library and
  \<^verbatim>\<open>JSON.parse\<close> throw are error objects.
\<close>

record 'j ChatEnv =
  create :: "nat \<Rightarrow> string \<Rightarrow> js_error + Completion"
  create_stream :: "nat \<Rightarrow> string \<Rightarrow> js_error + (js_error + 'j LLMResponse)"
  json_parse :: "string \<Rightarrow> js_error + 'j"
  cache_get_time :: int
  cache_set_time :: int

text \<open>
  The client: the model list of its configuration, the cache, and two logs, of the metrics
  recorded and of the requests made to the provider (model and stream flag). \<open>'m\<close> and \<open>'t\<close>
  are the types of the message list and of the tool catalogue. A cache key is the triple
  that \<^verbatim>\<open>getCacheKey\<close> serialises; equal payloads give equal keys.
\<close>

record ('m, 't, 'j) LLMClient =
  openRouterModel :: string
  fallbackModels :: "string list"
  cache :: "('m \<times> 't option \<times> string) \<rightharpoonup> ('j LLMResponse \<times> int)"
  llm_metrics :: "llm_metric list"
  provider_calls :: "(string \<times> bool) list"

definition getCacheKey ::
  "('m, 't, 'j) LLMClient \<Rightarrow> 'm \<Rightarrow> 't option \<Rightarrow> 'm \<times> 't option \<times> string" where
  "getCacheKey c messages tools = (messages, tools, openRouterModel c)"

text \<open>
  Modelled from the spec: the cache is an object of the package \<^verbatim>\<open>node-cache\<close>, which is not
  part of the repository, made with \<^verbatim>\<open>stdTTL: 300\<close>. An entry is stored with the time at
  which it expires, 300 seconds after it was set; reading a key whose entry has expired
  removes the entry and finds nothing.
\<close>

definition cache_set ::
  "('k \<rightharpoonup> ('v \<times> int)) \<Rightarrow> 'k \<Rightarrow> 'v \<Rightarrow> int \<Rightarrow> ('k \<rightharpoonup> ('v \<times> int))" where
  "cache_set m k v t = m(k \<mapsto> (v, t + 300 * 1000))"

definition cache_get ::
  "('k \<rightharpoonup> ('v \<times> int)) \<Rightarrow> 'k \<Rightarrow> int \<Rightarrow> 'v option \<times> ('k \<rightharpoonup> ('v \<times> int))" where
  "cache_get m k t =
     (case m k of
        None \<Rightarrow> (None, m)
      | Some (v, expires) \<Rightarrow> if expires < t then (None, m(k := None)) else (Some v, m))"

text \<open>\<^verbatim>\<open>LLMClient.shouldRetry\<close>: the status is \<^verbatim>\<open>error.status || error.response?.status\<close>.\<close>

definition shouldRetry :: "js_error \<Rightarrow> bool" where
  "shouldRetry e =
     (let statusCode = (case err_status e of
                          None \<Rightarrow> err_response_status e
                        | Some n \<Rightarrow> if n = 0 then err_response_status e else Some n)
      in statusCode = Some 429 \<or> statusCode = Some 500
         \<or> statusCode = Some 502 \<or> statusCode = Some 503)"

text \<open>The \<^verbatim>\<open>map\<close> over \<^verbatim>\<open>message.tool_calls\<close>: the first \<^verbatim>\<open>JSON.parse\<close> that throws ends it.\<close>

fun parse_tool_calls ::
  "(string \<Rightarrow> js_error + 'j) \<Rightarrow> RawToolCall list \<Rightarrow> js_error + 'j ToolCall list" where
  "parse_tool_calls jp [] = Inr []"
| "parse_tool_calls jp (tc # tcs) =
     (case jp (raw_arguments tc) of
        Inl e \<Rightarrow> Inl e
      | Inr a \<Rightarrow>
          (case parse_tool_calls jp tcs of
             Inl e \<Rightarrow> Inl e
           | Inr cs \<Rightarrow> Inr (\<lparr>call_id = raw_id tc, call_name = raw_name tc, arguments = a\<rparr> # cs)))"

text \<open>
  \<^verbatim>\<open>LLMClient.parseResponse\<close>. With no choice at all, reading \<^verbatim>\<open>choices[0].message\<close> throws
  a \<^verbatim>\<open>TypeError\<close>.
\<close>

definition parseResponse ::
  "(string \<Rightarrow> js_error + 'j) \<Rightarrow> Completion \<Rightarrow> js_error + 'j LLMResponse" where
  "parseResponse jp completion =
     (case choices completion of
        [] \<Rightarrow> Inl (Error (''Cannot read properties of undefined (reading ''
                           @ [CHR 0x27] @ ''message'' @ [CHR 0x27] @ '')''))
      | m # _ \<Rightarrow>
          (let text = (case msg_content m of None \<Rightarrow> [] | Some c \<Rightarrow> c) in
           case tool_calls m of
             None \<Rightarrow> Inr \<lparr>content = text, toolCalls = None, usage = None\<rparr>
           | Some tcs \<Rightarrow>
               (case parse_tool_calls jp tcs of
                  Inl e \<Rightarrow> Inl e
                | Inr cs \<Rightarrow> Inr \<lparr>content = text, toolCalls = Some cs, usage = None\<rparr>)))"

text \<open>
  How one turn of the loop over the models ends: \<^verbatim>\<open>chat\<close> returns a response, \<^verbatim>\<open>chat\<close>
  throws, or the \<^verbatim>\<open>catch\<close> block goes on to the next model with \<^verbatim>\<open>lastError\<close> set.
\<close>

datatype 'j attempt_outcome = Returned "'j LLMResponse" | Thrown js_error | Continue js_error

text \<open>The \<^verbatim>\<open>catch\<close> block of the loop.\<close>

definition catch_attempt ::
  "js_error \<Rightarrow> string \<Rightarrow> ('m, 't, 'j) LLMClient
     \<Rightarrow> 'j attempt_outcome \<times> ('m, 't, 'j) LLMClient" where
  "catch_attempt e model c =
     (let c' = c\<lparr>llm_metrics := llm_metrics c @ [LLMMetric model False 0 0]\<rparr>
      in (if shouldRetry e then Continue e else Thrown e, c'))"

definition record_success ::
  "string \<Rightarrow> Usage \<Rightarrow> ('m, 't, 'j) LLMClient \<Rightarrow> ('m, 't, 'j) LLMClient" where
  "record_success model u c =
     c\<lparr>llm_metrics := llm_metrics c
          @ [LLMMetric model True (prompt_tokens u) (completion_tokens u)]\<rparr>"

text \<open>
  One turn of the loop. In a streamed call the promise of \<^verbatim>\<open>handleStreamingResponse\<close> is
  returned without \<^verbatim>\<open>await\<close>, so an error it throws leaves \<^verbatim>\<open>chat\<close> without passing through
  the \<^verbatim>\<open>catch\<close> block.
\<close>

definition attempt ::
  "'j ChatEnv \<Rightarrow> ('m \<times> 't option \<times> string) \<Rightarrow> bool \<Rightarrow> nat \<Rightarrow> string
     \<Rightarrow> ('m, 't, 'j) LLMClient \<Rightarrow> 'j attempt_outcome \<times> ('m, 't, 'j) LLMClient" where
  "attempt e cacheKey stream k model c =
     (let c1 = c\<lparr>provider_calls := provider_calls c @ [(model, stream)]\<rparr> in
      if stream
      then (case create_stream e k model of
              Inl err \<Rightarrow> catch_attempt err model c1
            | Inr (Inl err) \<Rightarrow> (Thrown err, c1)
            | Inr (Inr response) \<Rightarrow>
                (Returned response,
                 (case usage response of
                    None \<Rightarrow> c1
                  | Some u \<Rightarrow> record_success model u c1)))
      else (case create e k model of
              Inl err \<Rightarrow> catch_attempt err model c1
            | Inr completion \<Rightarrow>
                (case parseResponse (json_parse e) completion of
                   Inl err \<Rightarrow> catch_attempt err model c1
                 | Inr response \<Rightarrow>
                     (let (response', c2) =
                            (case completion_usage completion of
                               None \<Rightarrow> (response, c1)
                             | Some u \<Rightarrow> (response\<lparr>usage := Some u\<rparr>, record_success model u c1))
                      in (Returned response',
                          c2\<lparr>cache := cache_set (cache c2) cacheKey response'
                                        (cache_set_time e)\<rparr>)))))"

text \<open>The loop over the models, and the \<^verbatim>\<open>throw\<close> after it.\<close>

fun try_models ::
  "'j ChatEnv \<Rightarrow> ('m \<times> 't option \<times> string) \<Rightarrow> bool \<Rightarrow> nat \<Rightarrow> string list
     \<Rightarrow> js_error option \<Rightarrow> ('m, 't, 'j) LLMClient
     \<Rightarrow> (js_error + 'j LLMResponse) \<times> ('m, 't, 'j) LLMClient" where
  "try_models e cacheKey stream k [] lastError c =
     (Inl (Error (''All models failed. Last error: ''
                  @ (case lastError of None \<Rightarrow> ''undefined'' | Some err \<Rightarrow> message err))), c)"
| "try_models e cacheKey stream k (model # rest) lastError c =
     (case attempt e cacheKey stream k model c of
        (Returned response, c') \<Rightarrow> (Inr response, c')
      | (Thrown err, c') \<Rightarrow> (Inl err, c')
      | (Continue err, c') \<Rightarrow> try_models e cacheKey stream (Suc k) rest (Some err) c')"

text \<open>\<^verbatim>\<open>LLMClient.chat\<close>.\<close>

definition chat ::
  "'j ChatEnv \<Rightarrow> 'm \<Rightarrow> 't option \<Rightarrow> bool \<Rightarrow> ('m, 't, 'j) LLMClient
     \<Rightarrow> (js_error + 'j LLMResponse) \<times> ('m, 't, 'j) LLMClient" where
  "chat e messages tools stream c =
     (let cacheKey = getCacheKey c messages tools;
          models = openRouterModel c # fallbackModels c
      in if \<not> stream
         then (case cache_get (cache c) cacheKey (cache_get_time e) of
                 (Some cached, m) \<Rightarrow> (Inr cached, c\<lparr>cache := m\<rparr>)
               | (None, m) \<Rightarrow> try_models e cacheKey stream 0 models None (c\<lparr>cache := m\<rparr>))
         else try_models e cacheKey stream 0 models None c)"

section \<open>Invariants of the approval queue\<close>

text \<open>
  The resolutions that the events tell of: a grant is a resolution with true, a denial and
  a logged timeout are resolutions with false.
\<close>

fun outcomes :: "approval_event list \<Rightarrow> (string \<times> bool) list" where
  "outcomes [] = []"
| "outcomes (ApprovalGranted rid # evs) = (rid, True) # outcomes evs"
| "outcomes (ApprovalDenied rid reason # evs) = (rid, False) # outcomes evs"
| "outcomes (ApprovalTimeoutLogged rid # evs) = (rid, False) # outcomes evs"
| "outcomes (ApprovalRequestedEvent rid # evs) = outcomes evs"

text \<open>
  What holds of the approval state when the ids in \<open>used\<close> are the ones given out so far:
  every request is stored under its own id, no id is resolved twice, and no resolved id is
  pending.
\<close>

definition binv :: "string set \<Rightarrow> ApprovalBroker \<Rightarrow> bool" where
  "binv used b =
     ((\<forall>k req. approvalQueue b k = Some req \<longrightarrow> approval_id req = k)
      \<and> dom (approvalQueue b) \<subseteq> used
      \<and> fst ` set (resolved b) \<subseteq> used
      \<and> distinct (map fst (resolved b))
      \<and> dom (approvalQueue b) \<inter> fst ` set (resolved b) = {}
      \<and> outcomes (approval_events b) = resolved b)"

text \<open>A request is tracked when it is pending or has been resolved.\<close>

definition tracked :: "string \<Rightarrow> ApprovalBroker \<Rightarrow> bool" where
  "tracked rid b = (approvalQueue b rid \<noteq> None \<or> rid \<in> fst ` set (resolved b))"

text \<open>A late approval racing with the timer, and a late denial after an approval.\<close>

definition late_approval :: "broker_call list" where
  "late_approval =
     [Request ''r1'' ''t1'' ''exec'' high, Timer ''r1'', Approve ''r1'', Deny ''r1'' None]"

section \<open>Invariants of a generator, and example runs\<close>

definition run_task ::
  "call list \<Rightarrow> TaskRequest \<Rightarrow> TaskEnv \<Rightarrow> Planner \<Rightarrow> Generator \<times> Planner" where
  "run_task cs req e p = consume cs (executeTask req e, p)"

text \<open>The status histories a task can have, from its creation on.\<close>

definition lifecycle_histories :: "TaskStatus list list" where
  "lifecycle_histories =
     [[queued], [queued, running], [queued, failed],
      [queued, running, completed], [queued, running, failed]]"

definition running_ok :: "nat \<Rightarrow> nat \<Rightarrow> Task \<Rightarrow> bool" where
  "running_ok M i t =
     (status t = running \<and> history t = [queued, running] \<and> length (steps t) = i \<and> i \<le> M)"

definition final_ok :: "nat \<Rightarrow> Task \<Rightarrow> bool" where
  "final_ok M t =
     (length (steps t) \<le> M \<and> status t = last (history t)
      \<and> (history t = [queued, failed] \<or> history t = [queued, running, completed]
         \<or> history t = [queued, running, failed]))"

text \<open>
  What holds of a generator in each phase, for the iteration bound \<open>M\<close>: at the \<^verbatim>\<open>yield\<close> of
  iteration \<open>i\<close> the task is running and has \<open>i\<close> steps.
\<close>

definition ginv :: "nat \<Rightarrow> Generator \<Rightarrow> bool" where
  "ginv M g =
     (case phase g of
        NotStarted \<Rightarrow> task g = None
      | AtYield i \<Rightarrow> (case task g of None \<Rightarrow> False | Some t \<Rightarrow> running_ok M i t \<and> 1 \<le> i)
      | Finished \<Rightarrow>
          (case task g of
             None \<Rightarrow> True
           | Some t \<Rightarrow> final_ok M t \<or> (\<exists>i. running_ok M i t)))"

text \<open>A finished generator has returned a task with a terminal status.\<close>

definition drained :: "Generator \<Rightarrow> bool" where
  "drained g =
     (case phase g of
        Finished \<Rightarrow> (case task g of None \<Rightarrow> False
                     | Some t \<Rightarrow> status t = completed \<or> status t = failed)
      | _ \<Rightarrow> True)"

text \<open>1 for a generator that is inside the loop, 0 for any other.\<close>

definition live :: "Generator \<Rightarrow> int" where
  "live g = (case phase g of AtYield i \<Rightarrow> 1 | _ \<Rightarrow> 0)"

definition plain_step :: "string \<Rightarrow> PlanStep" where
  "plain_step th =
     \<lparr>step_id = ''step'', thought = th, action = None, observation = None, step_error = None\<rparr>"

definition failed_step :: "string \<Rightarrow> PlanStep" where
  "failed_step th =
     \<lparr>step_id = ''step'', thought = th, action = Some ''exec'',
      observation = Some ''Failed: Tool execution denied by user'',
      step_error = Some ''Tool execution denied by user''\<rparr>"

definition a_request :: TaskRequest where
  "a_request = \<lparr>req_instruction = ''capture a screenshot then state task complete'',
                req_timeout = None\<rparr>"

text \<open>A run that takes a screenshot and then says that the task is complete.\<close>

definition quick_env :: TaskEnv where
  "quick_env =
     \<lparr>uuid = ''t1'', startTime = 0, now = (\<lambda>i. int i),
      generateNextStep = (\<lambda>i. if i = 1
                               then (plain_step ''I will capture a screenshot'')
                                      \<lparr>action := Some ''screenshot''\<rparr>
                               else plain_step ''Task complete'')\<rparr>"

text \<open>A run whose fifteenth step is the first to say that the task is complete.\<close>

definition late_env :: TaskEnv where
  "late_env =
     \<lparr>uuid = ''t1'', startTime = 0, now = (\<lambda>i. int i),
      generateNextStep = (\<lambda>i. plain_step (if i = 15 then ''Task complete'' else ''working''))\<rparr>"

text \<open>
  The same, with a failed tool call in each of the steps 13, 14 and 15.
\<close>

definition erring_env :: TaskEnv where
  "erring_env =
     \<lparr>uuid = ''t1'', startTime = 0, now = (\<lambda>i. int i),
      generateNextStep = (\<lambda>i. if i = 15 then failed_step ''Task complete''
                               else if 13 \<le> i then failed_step ''working''
                               else plain_step ''working'')\<rparr>"

text \<open>A run, for the task with the given id, that never says it is complete.\<close>

definition busy_env :: "string \<Rightarrow> TaskEnv" where
  "busy_env ident =
     \<lparr>uuid = ident, startTime = 0, now = (\<lambda>i. int i),
      generateNextStep = (\<lambda>i. plain_step ''working'')\<rparr>"

text \<open>
  What holds of the planner and its generators, for the iteration bound \<open>M\<close> and the ceiling
  \<open>C\<close>: the counter is the number of generators inside the loop, and it is at most \<open>C\<close>.
\<close>

definition sys_inv :: "nat \<Rightarrow> int \<Rightarrow> System \<Rightarrow> bool" where
  "sys_inv M C s =
     (list_all (ginv M) (generators s)
      \<and> maxIterations (planner s) = M
      \<and> maxConcurrentTasks (planner s) = C
      \<and> concurrentTasks (planner s) = sum_list (map live (generators s))
      \<and> concurrentTasks (planner s) \<le> C)"

text \<open>
  Four tasks one after the other; the consumer of each takes three steps and then leaves
  its loop, as the handler of \<^verbatim>\<open>POST /api/tasks\<close> does with \<^verbatim>\<open>break\<close>.
\<close>

definition abandon4 :: "sys_call list" where
  "abandon4 =
     [Create a_request (busy_env ''a''), NextOf 0, NextOf 0, NextOf 0, ReturnOf 0,
      Create a_request (busy_env ''b''), NextOf 1, NextOf 1, NextOf 1, ReturnOf 1,
      Create a_request (busy_env ''c''), NextOf 2, NextOf 2, NextOf 2, ReturnOf 2,
      Create a_request (busy_env ''d''), NextOf 3, NextOf 3, NextOf 3, ReturnOf 3]"

section \<open>Attempts of the provider client, and example clients\<close>

text \<open>
  What one request to the provider comes to, streamed or not: \<open>Inl\<close> for an error that
  reaches the \<^verbatim>\<open>catch\<close> block of the loop, \<open>Inr (Inl err)\<close> for an error thrown while a
  streamed response is read, which does not pass through that block, and \<open>Inr (Inr r)\<close> for
  the response \<^verbatim>\<open>chat\<close> returns.
\<close>

definition attempt_result ::
  "'j ChatEnv \<Rightarrow> bool \<Rightarrow> nat \<Rightarrow> string \<Rightarrow> js_error + (js_error + 'j LLMResponse)" where
  "attempt_result e stream k model =
     (if stream then create_stream e k model
      else (case create e k model of
              Inl err \<Rightarrow> Inl err
            | Inr completion \<Rightarrow>
                (case parseResponse (json_parse e) completion of
                   Inl err \<Rightarrow> Inl err
                 | Inr response \<Rightarrow> Inr (Inr (response\<lparr>usage := completion_usage completion\<rparr>)))))"


text \<open>The metrics of a successful attempt: one when the response carries a usage, else none.\<close>

definition success_metric :: "string \<Rightarrow> 'j LLMResponse \<Rightarrow> llm_metric list" where
  "success_metric model r =
     (case usage r of
        None \<Rightarrow> []
      | Some u \<Rightarrow> [LLMMetric model True (prompt_tokens u) (completion_tokens u)])"

text \<open>The metric of a failed attempt.\<close>

definition failure_metric :: "string \<Rightarrow> llm_metric" where
  "failure_metric model = LLMMetric model False 0 0"

text \<open>The client after one request, and after a list of requests, with the metrics recorded.\<close>

definition called ::
  "string \<Rightarrow> bool \<Rightarrow> llm_metric list \<Rightarrow> ('m, 't, 'j) LLMClient \<Rightarrow> ('m, 't, 'j) LLMClient" where
  "called model stream ms c =
     c\<lparr>provider_calls := provider_calls c @ [(model, stream)],
       llm_metrics := llm_metrics c @ ms\<rparr>"

definition tried ::
  "string list \<Rightarrow> bool \<Rightarrow> llm_metric list \<Rightarrow> ('m, 't, 'j) LLMClient \<Rightarrow> ('m, 't, 'j) LLMClient" where
  "tried models stream ms c =
     c\<lparr>provider_calls := provider_calls c @ map (\<lambda>m. (m, stream)) models,
       llm_metrics := llm_metrics c @ ms\<rparr>"

text \<open>The client after the cache lookup at the start of \<^verbatim>\<open>chat\<close>.\<close>

definition after_lookup ::
  "'j ChatEnv \<Rightarrow> 'm \<Rightarrow> 't option \<Rightarrow> bool \<Rightarrow> ('m, 't, 'j) LLMClient \<Rightarrow> ('m, 't, 'j) LLMClient" where
  "after_lookup e messages tools stream c =
     (if stream then c
      else c\<lparr>cache := snd (cache_get (cache c) (getCacheKey c messages tools)
                             (cache_get_time e))\<rparr>)"

text \<open>
  A client with one fallback model and an empty cache; an error of the rate limit class; a
  completion without usage data; a provider whose primary model is rate limited while the
  fallback answers; and a provider that is rate limited on every model.
\<close>

definition client0 :: "(string, string, string) LLMClient" where
  "client0 =
     \<lparr>openRouterModel = ''anthropic/claude-3.5-sonnet'',
      fallbackModels = [''openai/gpt-4o''],
      cache = Map.empty, llm_metrics = [], provider_calls = []\<rparr>"

definition rate_limited :: js_error where
  "rate_limited =
     \<lparr>message = ''Rate limit exceeded'', err_status = Some 429, err_response_status = None\<rparr>"

definition reply :: Completion where
  "reply = \<lparr>choices = [\<lparr>msg_content = Some ''Task complete'', tool_calls = None\<rparr>],
            completion_usage = None\<rparr>"

definition fallback_env :: "string ChatEnv" where
  "fallback_env =
     \<lparr>create = (\<lambda>k model. if k = 0 then Inl rate_limited else Inr reply),
      create_stream = (\<lambda>k model. Inl rate_limited),
      json_parse = (\<lambda>s. Inr s),
      cache_get_time = 0, cache_set_time = 1000\<rparr>"

definition down_env :: "string ChatEnv" where
  "down_env =
     \<lparr>create = (\<lambda>k model. Inl rate_limited),
      create_stream = (\<lambda>k model. Inl rate_limited),
      json_parse = (\<lambda>s. Inr s),
      cache_get_time = 2000, cache_set_time = 3000\<rparr>"



section \<open>Properties of the tool registry\<close>

lemma executeTool_catches:
  assumes "tools name = Some tool" and "fst (try_block tool name params ctx) = Inl v"
  shows "fst (executeTool tools name params ctx) = catch_handler v"
  using assms by (cases "try_block tool name params ctx") (simp add: executeTool_def)

lemma executeTool_passes:
  assumes "tools name = Some tool" and "fst (try_block tool name params ctx) = Inr r"
  shows "fst (executeTool tools name params ctx) = Inr r"
  using assms by (cases "try_block tool name params ctx") (simp add: executeTool_def)

lemma try_block_execute_throws:
  assumes "safeParse tool params = Inr (Inr parsed)"
    and "case validate tool of None \<Rightarrow> True
         | Some v \<Rightarrow> (case v parsed of Inl x \<Rightarrow> False | Inr vr \<Rightarrow> valid vr)"
    and "requiresApproval tool \<longrightarrow> approved ctx = Some True"
    and "execute tool parsed ctx = Inl e"
  shows "fst (try_block tool name params ctx) = Inl e"
  using assms
  by (auto simp: try_block_def custom_validation_def run_tool_def
           split: option.splits sum.splits)

text \<open>
  When the value caught is \<^verbatim>\<open>null\<close> or \<^verbatim>\<open>undefined\<close>, \<^verbatim>\<open>executeTool\<close> throws: the \<^verbatim>\<open>TypeError\<close>
  of its own \<^verbatim>\<open>catch\<close> handler. The operation of \<open>rejecting_tool\<close> is such a case.
\<close>

lemma executeTool_throws_on_nullish:
  assumes "tools name = Some tool"
  shows "(fst (try_block tool name params ctx) = Inl Null \<longrightarrow>
            fst (executeTool tools name params ctx)
              = Inl (Raised (Error (type_error_message ''null'' ''message''))))
       \<and> (fst (try_block tool name params ctx) = Inl Undefined \<longrightarrow>
            fst (executeTool tools name params ctx)
              = Inl (Raised (Error (type_error_message ''undefined'' ''message''))))"
  using assms executeTool_catches [of tools name tool params ctx]
  by (simp add: catch_handler_def)

lemma rejecting_tool_throws:
  "fst (executeTool example_tools ''rejecting'' ''ls'' \<lparr>taskId = None, approved = None\<rparr>)
     = Inl (Raised (Error ''Cannot read properties of undefined (reading 'message')''))"
  by (simp add: executeTool_def try_block_def custom_validation_def run_tool_def
                example_tools_def rejecting_tool_def catch_handler_def type_error_message_def)

text \<open>
  C2, as amended. An unknown name gives the failure \<^verbatim>\<open>Tool not found: <name>\<close>. For a
  registered tool, \<^verbatim>\<open>ToolRegistry.executeTool\<close> returns a \<^verbatim>\<open>ToolResult\<close> and does not throw,
  as long as what is thrown inside its \<^verbatim>\<open>try\<close> block is not \<^verbatim>\<open>null\<close> or \<^verbatim>\<open>undefined\<close>. An
  error object thrown by the schema check, by the custom validator or by the tool's
  operation is caught and returned as a failure whose error text is the message of the
  thrown error when that message is not empty, and \<^verbatim>\<open>Unknown error occurred\<close> when it is
  empty.
\<close>

theorem executeTool_catches_error_objects:
  "(tools name = None \<longrightarrow>
      fst (executeTool tools name params ctx) = Inr (failure (''Tool not found: '' @ name)))
   \<and> (tools name = Some tool
        \<and> fst (try_block tool name params ctx) \<noteq> Inl Null
        \<and> fst (try_block tool name params ctx) \<noteq> Inl Undefined \<longrightarrow>
        (\<exists>r. fst (executeTool tools name params ctx) = Inr r))
   \<and> (tools name = Some tool \<and> safeParse tool params = Inl (Raised e) \<longrightarrow>
        fst (executeTool tools name params ctx) = Inr (failure (caught_message e)))
   \<and> (tools name = Some tool \<and> safeParse tool params = Inr (Inr parsed)
        \<and> validate tool = Some v \<and> v parsed = Inl (Raised e) \<longrightarrow>
        fst (executeTool tools name params ctx) = Inr (failure (caught_message e)))
   \<and> (tools name = Some tool \<and> safeParse tool params = Inr (Inr parsed)
        \<and> (case validate tool of None \<Rightarrow> True
             | Some v \<Rightarrow> (case v parsed of Inl x \<Rightarrow> False | Inr vr \<Rightarrow> valid vr))
        \<and> (requiresApproval tool \<longrightarrow> approved ctx = Some True)
        \<and> execute tool parsed ctx = Inl (Raised e) \<longrightarrow>
        fst (executeTool tools name params ctx) = Inr (failure (caught_message e)))
   \<and> (message e \<noteq> [] \<longrightarrow> caught_message e = message e)
   \<and> (message e = [] \<longrightarrow> caught_message e = ''Unknown error occurred'')"
proof (intro conjI impI)
  assume "tools name = None"
  then show "fst (executeTool tools name params ctx) = Inr (failure (''Tool not found: '' @ name))"
    by (simp add: executeTool_def)
next
  assume a: "tools name = Some tool
        \<and> fst (try_block tool name params ctx) \<noteq> Inl Null
        \<and> fst (try_block tool name params ctx) \<noteq> Inl Undefined"
  show "\<exists>r. fst (executeTool tools name params ctx) = Inr r"
  proof (cases "fst (try_block tool name params ctx)")
    case (Inl x)
    with a obtain err where "x = Raised err" by (cases x) auto
    with Inl a executeTool_catches [of tools name tool params ctx x] show ?thesis
      by (simp add: catch_handler_def)
  next
    case (Inr r)
    with a executeTool_passes [of tools name tool params ctx r] show ?thesis by simp
  qed
next
  assume "tools name = Some tool \<and> safeParse tool params = Inl (Raised e)"
  then have "fst (executeTool tools name params ctx) = catch_handler (Raised e)"
    by (intro executeTool_catches [of tools name tool]) (simp_all add: try_block_def)
  then show "fst (executeTool tools name params ctx) = Inr (failure (caught_message e))"
    by (simp add: catch_handler_def)
next
  assume "tools name = Some tool \<and> safeParse tool params = Inr (Inr parsed)
          \<and> validate tool = Some v \<and> v parsed = Inl (Raised e)"
  then have "fst (executeTool tools name params ctx) = catch_handler (Raised e)"
    by (intro executeTool_catches [of tools name tool])
       (simp_all add: try_block_def custom_validation_def)
  then show "fst (executeTool tools name params ctx) = Inr (failure (caught_message e))"
    by (simp add: catch_handler_def)
next
  assume a: "tools name = Some tool \<and> safeParse tool params = Inr (Inr parsed)
        \<and> (case validate tool of None \<Rightarrow> True
             | Some v \<Rightarrow> (case v parsed of Inl x \<Rightarrow> False | Inr vr \<Rightarrow> valid vr))
        \<and> (requiresApproval tool \<longrightarrow> approved ctx = Some True)
        \<and> execute tool parsed ctx = Inl (Raised e)"
  then have "fst (try_block tool name params ctx) = Inl (Raised e)"
    by (intro try_block_execute_throws [of tool params parsed]) simp_all
  with a have "fst (executeTool tools name params ctx) = catch_handler (Raised e)"
    by (intro executeTool_catches [of tools name tool]) simp_all
  then show "fst (executeTool tools name params ctx) = Inr (failure (caught_message e))"
    by (simp add: catch_handler_def)
qed (simp_all add: caught_message_def)

theorem executeTool_catches_error_objects_witness:
  "example_tools ''nope'' = None
   \<and> fst (executeTool example_tools ''nope'' ''ls'' \<lparr>taskId = None, approved = None\<rparr>)
       = Inr (failure ''Tool not found: nope'')
   \<and> example_tools ''silent'' = Some silent_tool
   \<and> execute silent_tool ''ls'' \<lparr>taskId = None, approved = None\<rparr> = Inl (Raised (Error []))
   \<and> fst (try_block silent_tool ''silent'' ''ls'' \<lparr>taskId = None, approved = None\<rparr>)
       = Inl (Raised (Error []))
   \<and> fst (executeTool example_tools ''silent'' ''ls'' \<lparr>taskId = None, approved = None\<rparr>)
       = Inr (failure ''Unknown error occurred'')"
proof -
  have t: "fst (try_block silent_tool ''silent'' ''ls'' \<lparr>taskId = None, approved = None\<rparr>)
       = Inl (Raised (Error []))"
    by (simp add: try_block_def custom_validation_def run_tool_def silent_tool_def)
  show ?thesis
    using t
        executeTool_catches_error_objects
          [where tools = example_tools and name = "''nope''" and params = "''ls''"
             and ctx = "\<lparr>taskId = None, approved = None\<rparr>"]
        executeTool_catches_error_objects
          [where tools = example_tools and name = "''silent''" and params = "''ls''"
             and ctx = "\<lparr>taskId = None, approved = None\<rparr>" and tool = silent_tool
             and e = "Error []" and parsed = "''ls''"]
    by (simp add: example_tools_def silent_tool_def Error_def)
qed

text \<open>
  C2 as stated fails: the error text is not always the message of the thrown error. The
  operation of \<open>silent_tool\<close> throws an error with the empty message, and the result carries
  \<^verbatim>\<open>Unknown error occurred\<close>.
\<close>

theorem executeTool_message_counterexample:
  "execute silent_tool ''ls'' \<lparr>taskId = None, approved = None\<rparr> = Inl (Raised (Error []))
   \<and> fst (executeTool example_tools ''silent'' ''ls'' \<lparr>taskId = None, approved = None\<rparr>)
       = Inr \<lparr>success = False, data = None, error = Some ''Unknown error occurred''\<rparr>
   \<and> fst (executeTool example_tools ''silent'' ''ls'' \<lparr>taskId = None, approved = None\<rparr>)
       \<noteq> Inr \<lparr>success = False, data = None, error = Some (message (Error []))\<rparr>"
  by (simp add: executeTool_def try_block_def custom_validation_def run_tool_def
                example_tools_def silent_tool_def caught_message_def catch_handler_def
                Error_def failure_def)

section \<open>Properties of the reasoning loop\<close>

lemma finish_failed_inv:
  assumes "running_ok M i t" "finish_failed e t g p = (r, g', p')"
  shows "ginv M g' \<and> drained g' \<and> phase g' = Finished \<and> maxIterations p' = maxIterations p
     \<and> concurrentTasks p' = concurrentTasks p - 1 \<and> maxConcurrentTasks p' = maxConcurrentTasks p"
  using assms
  by (auto simp: finish_failed_def ginv_def drained_def running_ok_def final_ok_def set_status_def
      finally_block_def store_def emit_def Let_def)

lemma finish_completed_inv:
  assumes "running_ok M i t" "finish_completed t g p = (r, g', p')"
  shows "ginv M g' \<and> drained g' \<and> phase g' = Finished \<and> maxIterations p' = maxIterations p
     \<and> concurrentTasks p' = concurrentTasks p - 1 \<and> maxConcurrentTasks p' = maxConcurrentTasks p"
  using assms
  by (auto simp: finish_completed_def ginv_def drained_def running_ok_def final_ok_def set_status_def
      finally_block_def store_def emit_def Let_def)

lemma loop_head_inv:
  assumes "running_ok M i t" "maxIterations p = M" "loop_head i c t g p = (r, g', p')"
  shows "ginv M g' \<and> drained g' \<and> maxIterations p' = M \<and> maxConcurrentTasks p' = maxConcurrentTasks p
     \<and> (phase g' = Finished \<and> concurrentTasks p' = concurrentTasks p - 1
        \<or> phase g' = AtYield (Suc i) \<and> concurrentTasks p' = concurrentTasks p \<and> i < M)"
proof (cases "\<not> c \<and> i < maxIterations p")
  case True
  show ?thesis
  proof (cases "now (env g) (i + 1) - startTime (env g) > task_timeout t * 1000")
    case t: True
    with True assms(3) have "finish_failed (Error ''Task execution timeout'') t g p = (r, g', p')"
      by (simp add: loop_head_def)
    from finish_failed_inv[OF assms(1) this] assms(2) show ?thesis by simp
  next
    case False
    with True assms show ?thesis
      by (auto simp: loop_head_def Let_def ginv_def drained_def running_ok_def store_def)
  qed
next
  case False
  then have "loop_head i c t g p = (if maxIterations p \<le> i
      then finish_failed (Error ''Maximum iterations reached'') t g p
      else finish_completed t g p)"
    by (auto simp: loop_head_def)
  with assms(3) finish_failed_inv[OF assms(1), of "Error ''Maximum iterations reached''" g p r g' p']
     finish_completed_inv[OF assms(1), of g p r g' p'] assms(2)
  show ?thesis by (auto split: if_splits)
qed

lemma start_inv:
  assumes "phase g = NotStarted" "maxIterations p = M" "start g p = (r, g', p')"
  shows "ginv M g' \<and> drained g' \<and> maxIterations p' = M \<and> maxConcurrentTasks p' = maxConcurrentTasks p
     \<and> (phase g' = Finished \<and> concurrentTasks p' = concurrentTasks p
        \<or> phase g' = AtYield 1 \<and> concurrentTasks p' = concurrentTasks p + 1
            \<and> concurrentTasks p < maxConcurrentTasks p)"
proof (cases "maxConcurrentTasks p \<le> concurrentTasks p")
  case True
  with assms show ?thesis
    by (auto simp: start_def Let_def ginv_def drained_def final_ok_def set_status_def store_def emit_def)
next
  case False
  define t1 where "t1 = set_status running \<lparr>task_id = uuid (env g),
                instruction = req_instruction (request g),
                status = queued,
                steps = [],
                task_error = None,
                task_timeout = (case req_timeout (request g) of
                                  None \<Rightarrow> 300
                                | Some n \<Rightarrow> if n = 0 then 300 else n),
                history = [queued]\<rparr>"
  have ok: "running_ok M 0 t1" by (simp add: t1_def running_ok_def set_status_def)
  from False assms(3) obtain q where q: "loop_head 0 False t1 g q = (r, g', p')"
      and q2: "maxIterations q = maxIterations p" "concurrentTasks q = concurrentTasks p + 1"
       "maxConcurrentTasks q = maxConcurrentTasks p"
    by (auto simp: start_def Let_def t1_def store_def emit_def)
  from loop_head_inv[OF ok _ q] q2 assms(2) False show ?thesis by auto
qed

lemma resume_inv:
  assumes "running_ok M i t" "maxIterations p = M" "resume i t g p = (r, g', p')"
  shows "ginv M g' \<and> drained g' \<and> maxIterations p' = M \<and> maxConcurrentTasks p' = maxConcurrentTasks p
     \<and> (phase g' = Finished \<and> concurrentTasks p' = concurrentTasks p - 1
        \<or> phase g' = AtYield (Suc i) \<and> concurrentTasks p' = concurrentTasks p \<and> i < M)"
proof (cases "isTaskComplete t")
  case (Inl e)
  with assms(3) have "finish_failed e t g p = (r, g', p')" by (simp add: resume_def)
  from finish_failed_inv[OF assms(1) this] assms(2) show ?thesis by simp
next
  case (Inr c)
  with assms(3) have "loop_head i c t g (emit (TaskStep (task_id t)) (store t p)) = (r, g', p')"
    by (simp add: resume_def)
  from loop_head_inv[OF assms(1) _ this] assms(2) show ?thesis
    by (simp add: emit_def store_def)
qed


lemma gen_next_inv:
  assumes "ginv M g" "maxIterations p = M" "gen_next g p = (r, g', p')"
  shows "ginv M g' \<and> maxIterations p' = M \<and> maxConcurrentTasks p' = maxConcurrentTasks p
     \<and> (drained g \<longrightarrow> drained g')
     \<and> concurrentTasks p' = concurrentTasks p + live g' - live g
     \<and> (live g < live g' \<longrightarrow> concurrentTasks p < maxConcurrentTasks p)
     \<and> (phase g' = Finished \<or> (phase g = NotStarted \<and> phase g' = AtYield 1)
         \<or> (\<exists>i. phase g = AtYield i \<and> phase g' = AtYield (Suc i)))"
proof (cases "phase g")
  case NotStarted
  with assms(3) have "start g p = (r, g', p')" by (simp add: gen_next_def)
  from start_inv[OF NotStarted assms(2) this] NotStarted show ?thesis
    by (auto simp: live_def)
next
  case (AtYield i)
  with assms(1) obtain t where t: "task g = Some t" "running_ok M i t"
    by (auto simp: ginv_def split: option.splits)
  with AtYield assms(3) have "resume i t g p = (r, g', p')" by (simp add: gen_next_def)
  from resume_inv[OF t(2) assms(2) this] AtYield show ?thesis
    by (auto simp: live_def)
next
  case Finished
  with assms show ?thesis by (auto simp: gen_next_def live_def)
qed

lemma gen_return_inv:
  assumes "ginv M g" "maxIterations p = M" "gen_return g p = (r, g', p')"
  shows "ginv M g' \<and> maxIterations p' = M \<and> maxConcurrentTasks p' = maxConcurrentTasks p
     \<and> phase g' = Finished \<and> task g' = task g
     \<and> concurrentTasks p' = concurrentTasks p + live g' - live g"
  using assms
  by (cases "phase g")
     (auto simp: gen_return_def ginv_def live_def finally_block_def store_def
           split: option.splits)

lemma consume_append: "consume (xs @ ys) gp = consume ys (consume xs gp)"
proof (induction xs arbitrary: gp)
  case Nil
  show ?case by simp
next
  case (Cons c cs)
  show ?case by (cases c; cases gp) (simp_all add: Cons.IH)
qed

lemma consume_inv:
  assumes "ginv M g" "maxIterations p = M" "consume cs (g, p) = (g', p')"
  shows "ginv M g' \<and> maxIterations p' = M"
  using assms
proof (induction cs arbitrary: g p)
  case Nil
  then show ?case by simp
next
  case (Cons c cs)
  show ?case
  proof (cases c)
    case Next
    obtain r g1 p1 where s: "gen_next g p = (r, g1, p1)" by (cases "gen_next g p") auto
    from gen_next_inv[OF Cons.prems(1,2) s] Cons.prems(3) Next s Cons.IH[of g1 p1]
    show ?thesis by simp
  next
    case Return
    obtain r g1 p1 where s: "gen_return g p = (r, g1, p1)" by (cases "gen_return g p") auto
    from gen_return_inv[OF Cons.prems(1,2) s] Cons.prems(3) Return s Cons.IH[of g1 p1]
    show ?thesis by simp
  qed
qed

lemma drain_phase:
  assumes "ginv M g" "maxIterations p = M" "phase g = NotStarted"
    and "consume (replicate k Next) (g, p) = (g', p')"
  shows "ginv M g' \<and> maxIterations p' = M \<and> drained g'
     \<and> (phase g' = Finished \<or> (k = 0 \<and> phase g' = NotStarted) \<or> (0 < k \<and> phase g' = AtYield k))"
  using assms(4)
proof (induction k arbitrary: g' p')
  case 0
  with assms show ?case by (simp add: drained_def)
next
  case (Suc k)
  obtain g1 p1 where a: "consume (replicate k Next) (g, p) = (g1, p1)"
    by (cases "consume (replicate k Next) (g, p)") auto
  have "replicate (Suc k) Next = replicate k Next @ [Next]"
    by (simp add: replicate_append_same)
  with Suc.prems a have "snd (gen_next g1 p1) = (g', p')"
    by (simp add: consume_append del: replicate.simps)
  then obtain r where s: "gen_next g1 p1 = (r, g', p')"
    by (cases "gen_next g1 p1") auto
  from Suc.IH[OF a] have ih: "ginv M g1" "maxIterations p1 = M" "drained g1"
    "phase g1 = Finished \<or> (k = 0 \<and> phase g1 = NotStarted) \<or> (0 < k \<and> phase g1 = AtYield k)"
    by auto
  from gen_next_inv[OF ih(1,2) s] ih(3,4) show ?case by auto
qed

lemma fresh_ginv: "ginv M (executeTask req e)" "phase (executeTask req e) = NotStarted"
  by (simp_all add: ginv_def executeTask_def)

lemma ginv_AtYield_le: "ginv M g \<Longrightarrow> phase g = AtYield k \<Longrightarrow> k \<le> M"
  by (auto simp: ginv_def running_ok_def split: option.splits)


text \<open>
  C1. Whatever calls a consumer makes on the generator of \<^verbatim>\<open>executeTask\<close>, the task never has
  more steps than \<^verbatim>\<open>maxIterations\<close>, and the values assigned to its status form one of the
  chains queued; queued, running; queued, failed; queued, running, completed; queued,
  running, failed: no step back, and never \<^verbatim>\<open>pending_approval\<close>. When the consumer only calls
  \<^verbatim>\<open>next()\<close> and the generator is exhausted, the status is completed or failed; and the
  generator is exhausted after at most \<^verbatim>\<open>maxIterations\<close> + 1 calls of \<^verbatim>\<open>next()\<close>.
\<close>

theorem executeTask_lifecycle:
  "(case task (fst (run_task cs req e pl)) of
      None \<Rightarrow> True
    | Some t \<Rightarrow> length (steps t) \<le> maxIterations pl
                \<and> history t \<in> set lifecycle_histories
                \<and> pending_approval \<notin> set (history t)
                \<and> status t = last (history t))
   \<and> (set cs \<subseteq> {Next} \<and> phase (fst (run_task cs req e pl)) = Finished \<longrightarrow>
        (\<exists>t. task (fst (run_task cs req e pl)) = Some t
             \<and> (status t = completed \<or> status t = failed)))
   \<and> (set cs \<subseteq> {Next} \<and> maxIterations pl < length cs \<longrightarrow>
        phase (fst (run_task cs req e pl)) = Finished)"
proof -
  obtain g p where gp: "consume cs (executeTask req e, pl) = (g, p)"
    by (cases "consume cs (executeTask req e, pl)") auto
  from consume_inv[OF fresh_ginv(1) refl gp] have inv: "ginv (maxIterations pl) g" by simp
  have c1: "case task g of
            None \<Rightarrow> True
          | Some t \<Rightarrow> length (steps t) \<le> maxIterations pl
                      \<and> history t \<in> set lifecycle_histories
                      \<and> pending_approval \<notin> set (history t)
                      \<and> status t = last (history t)"
  proof (cases "task g")
    case None
    then show ?thesis by simp
  next
    case (Some t)
    with inv show ?thesis
      by (cases "phase g")
         (auto simp: ginv_def running_ok_def final_ok_def lifecycle_histories_def)
  qed
  have drain: "ginv (maxIterations pl) g \<and> maxIterations p = maxIterations pl \<and> drained g
     \<and> (phase g = Finished \<or> (length cs = 0 \<and> phase g = NotStarted)
        \<or> (0 < length cs \<and> phase g = AtYield (length cs)))"
    if a: "set cs \<subseteq> {Next}"
  proof -
    from a have "replicate (length cs) Next = cs" by (intro replicate_length_same) auto
    with gp have "consume (replicate (length cs) Next) (executeTask req e, pl) = (g, p)" by simp
    from drain_phase[OF fresh_ginv(1) refl fresh_ginv(2) this] show ?thesis .
  qed
  have c2: "\<exists>t. task g = Some t \<and> (status t = completed \<or> status t = failed)"
    if "set cs \<subseteq> {Next} \<and> phase g = Finished"
    using drain that by (auto simp: drained_def split: option.splits)
  have c3: "phase g = Finished" if "set cs \<subseteq> {Next} \<and> maxIterations pl < length cs"
    using drain that ginv_AtYield_le[of "maxIterations pl" g "length cs"] by auto
  from c1 c2 c3 gp show ?thesis by (simp add: run_task_def)
qed

theorem executeTask_lifecycle_witness:
  "set [Next, Next, Next] \<subseteq> {Next}
   \<and> maxIterations new_Planner = 15
   \<and> phase (fst (run_task [Next, Next, Next] a_request quick_env new_Planner)) = Finished
   \<and> map_option status (task (fst (run_task [Next, Next, Next] a_request quick_env new_Planner)))
       = Some completed
   \<and> map_option history (task (fst (run_task [Next, Next, Next] a_request quick_env new_Planner)))
       = Some [queued, running, completed]
   \<and> map_option (\<lambda>t. length (steps t))
        (task (fst (run_task [Next, Next, Next] a_request quick_env new_Planner))) = Some 2"
proof -
  have run: "set [Next, Next, Next] \<subseteq> {Next}
   \<and> maxIterations new_Planner = 15
   \<and> phase (fst (run_task [Next, Next, Next] a_request quick_env new_Planner)) = Finished
   \<and> map_option status (task (fst (run_task [Next, Next, Next] a_request quick_env new_Planner)))
       = Some completed
   \<and> map_option history (task (fst (run_task [Next, Next, Next] a_request quick_env new_Planner)))
       = Some [queued, running, completed]
   \<and> map_option (\<lambda>t. length (steps t))
        (task (fst (run_task [Next, Next, Next] a_request quick_env new_Planner))) = Some 2"
    by code_simp
  show ?thesis
    using executeTask_lifecycle
            [where cs = "[Next, Next, Next]" and req = a_request and e = quick_env
               and pl = new_Planner] run
    by simp
qed

lemma sum_list_live_update:
  "k < length gs \<Longrightarrow>
     sum_list (map live (gs[k := g])) = sum_list (map live gs) + live g - live (gs ! k)"
proof (induction gs arbitrary: k)
  case Nil
  then show ?case by simp
next
  case (Cons a gs)
  then show ?case by (cases k) simp_all
qed

lemma live_range: "live g = 0 \<or> live g = 1"
  by (simp add: live_def split: gen_phase.splits)

lemma list_all_update: "list_all P xs \<Longrightarrow> P x \<Longrightarrow> list_all P (xs[k := x])"
  by (induction xs arbitrary: k) (auto split: nat.splits)

lemma sys_step_inv:
  assumes "sys_inv M C s"
  shows "sys_inv M C (sys_step c s)"
proof (cases c)
  case (Create req e)
  with assms show ?thesis
    by (simp add: sys_inv_def ginv_def live_def executeTask_def)
next
  case (NextOf k)
  show ?thesis
  proof (cases "k < length (generators s)")
    case False
    with NextOf assms show ?thesis by simp
  next
    case True
    obtain r g' p' where st: "gen_next (generators s ! k) (planner s) = (r, g', p')"
      by (cases "gen_next (generators s ! k) (planner s)") auto
    from assms True have gi: "ginv M (generators s ! k)"
      by (simp add: sys_inv_def list_all_length)
    from assms have mi: "maxIterations (planner s) = M" by (simp add: sys_inv_def)
    note n = gen_next_inv[OF gi mi st]
    have cnt: "concurrentTasks p' = sum_list (map live ((generators s)[k := g']))"
      using n assms True by (simp add: sum_list_live_update sys_inv_def)
    have le: "concurrentTasks p' \<le> C"
      using n assms live_range[of g'] live_range[of "generators s ! k"]
      by (auto simp: sys_inv_def)
    from n assms cnt le NextOf True st show ?thesis
      by (simp add: sys_inv_def list_all_update)
  qed
next
  case (ReturnOf k)
  show ?thesis
  proof (cases "k < length (generators s)")
    case False
    with ReturnOf assms show ?thesis by simp
  next
    case True
    obtain r g' p' where st: "gen_return (generators s ! k) (planner s) = (r, g', p')"
      by (cases "gen_return (generators s ! k) (planner s)") auto
    from assms True have gi: "ginv M (generators s ! k)"
      by (simp add: sys_inv_def list_all_length)
    from assms have mi: "maxIterations (planner s) = M" by (simp add: sys_inv_def)
    note n = gen_return_inv[OF gi mi st]
    have cnt: "concurrentTasks p' = sum_list (map live ((generators s)[k := g']))"
      using n assms True by (simp add: sum_list_live_update sys_inv_def)
    have le: "concurrentTasks p' \<le> C"
      using n assms live_range[of "generators s ! k"]
      by (auto simp: sys_inv_def live_def)
    from n assms cnt le ReturnOf True st show ?thesis
      by (simp add: sys_inv_def list_all_update)
  qed
qed

lemma sys_run_inv: "sys_inv M C s \<Longrightarrow> sys_inv M C (sys_run cs s)"
  by (induction cs arbitrary: s) (simp_all add: sys_step_inv)

text \<open>
  With the default ceiling, whatever the consumers do: the counter is the number of
  generators inside the loop and never exceeds 3.
\<close>

lemma counter_never_exceeds_ceiling:
  "concurrentTasks (planner (sys_run cs new_System))
     = sum_list (map live (generators (sys_run cs new_System)))
   \<and> concurrentTasks (planner (sys_run cs new_System)) \<le> 3
   \<and> maxConcurrentTasks (planner (sys_run cs new_System)) = 3"
proof -
  have "sys_inv 15 3 new_System"
    by (simp add: sys_inv_def new_System_def new_Planner_def)
  from sys_run_inv[OF this, of cs] show ?thesis by (simp add: sys_inv_def)
qed

text \<open>
  A task started while the counter is at the ceiling fails at once, with no step, and the
  counter stays as it is.
\<close>

lemma start_at_ceiling:
  assumes "phase g = NotStarted" "maxConcurrentTasks p \<le> concurrentTasks p"
  shows "\<exists>t. gen_next g p = (Done (Some t), g\<lparr>phase := Finished, task := Some t\<rparr>,
                 (snd (snd (gen_next g p))))
     \<and> status t = failed \<and> task_error t = Some ''Maximum concurrent tasks reached''
     \<and> steps t = [] \<and> history t = [queued, failed]
     \<and> concurrentTasks (snd (snd (gen_next g p))) = concurrentTasks p"
  using assms
  by (simp add: gen_next_def start_def Let_def store_def emit_def set_status_def)

text \<open>
  In \<^verbatim>\<open>isTaskComplete\<close> the completion phrase goes first: with the phrase in the last
  thought the result is true, and the error is thrown only without it.
\<close>

lemma isTaskComplete_precedence:
  "(steps t \<noteq> [] \<and> completion_phrase (thought (last (steps t))) \<longrightarrow> isTaskComplete t = Inr True)
   \<and> (isTaskComplete t = Inl e \<longrightarrow>
        e = Error ''Too many consecutive errors''
        \<and> \<not> (steps t \<noteq> [] \<and> completion_phrase (thought (last (steps t)))))"
  by (auto simp: isTaskComplete_def split: list.splits if_splits)

text \<open>
  A completion phrase in a step before the last allowed iteration ends the task as completed,
  with no further step.
\<close>

lemma completion_before_last_iteration:
  assumes "phase g = AtYield i" "task g = Some t" "steps t \<noteq> []"
    and "completion_phrase (thought (last (steps t)))" "i < maxIterations p"
  shows "\<exists>t'. fst (gen_next g p) = Done (Some t') \<and> status t' = completed \<and> steps t' = steps t
     \<and> phase (fst (snd (gen_next g p))) = Finished"
proof -
  from assms(3,4) have "isTaskComplete t = Inr True"
    using isTaskComplete_precedence[of t] by simp
  with assms show ?thesis
    by (simp add: gen_next_def resume_def loop_head_def finish_completed_def Let_def
          set_status_def emit_def store_def)
qed

text \<open>
  \<^verbatim>\<open>return()\<close> at a \<^verbatim>\<open>yield\<close> lowers the counter and stores the task, and nothing else: the
  task keeps the status running and no event is emitted.
\<close>

lemma return_leaves_task_running:
  assumes "ginv M g" "phase g = AtYield i"
  shows "\<exists>t. task g = Some t \<and> status t = running
     \<and> gen_return g p = (Done None, g\<lparr>phase := Finished\<rparr>, finally_block t p)
     \<and> tasks (finally_block t p) (task_id t) = Some t
     \<and> concurrentTasks (finally_block t p) = concurrentTasks p - 1
     \<and> emitted (finally_block t p) = emitted p"
  using assms
  by (auto simp: ginv_def running_ok_def gen_return_def finally_block_def store_def
           split: option.splits)

text \<open>
  C5, at the input where the code departs from it. With the default bound of 15 iterations,
  the fifteenth step is the first whose thought holds a completion phrase. The loop stops,
  but the task ends as failed with the error \<^verbatim>\<open>Maximum iterations reached\<close>, not as
  completed: the test after the loop only looks at the iteration count.
\<close>

theorem completion_on_last_iteration_fails:
  "maxIterations new_Planner = 15
   \<and> completion_phrase (thought (generateNextStep late_env 15))
   \<and> phase (fst (run_task (replicate 15 Next) a_request late_env new_Planner)) = AtYield 15
   \<and> phase (fst (run_task (replicate 16 Next) a_request late_env new_Planner)) = Finished
   \<and> map_option status (task (fst (run_task (replicate 16 Next) a_request late_env new_Planner)))
       = Some failed
   \<and> map_option task_error
        (task (fst (run_task (replicate 16 Next) a_request late_env new_Planner)))
       = Some (Some ''Maximum iterations reached'')"
  by code_simp

text \<open>
  C9, at the input where the code departs from it. A consumer takes three steps and then
  stops. If it only stops calling \<^verbatim>\<open>next()\<close>, the generator stays at its \<^verbatim>\<open>yield\<close>, the task
  stays running and the counter stays raised. If it leaves its loop with \<^verbatim>\<open>break\<close>, calls
  \<^verbatim>\<open>return()\<close> and iterates again, as the handler of \<^verbatim>\<open>POST /api/tasks\<close> does, only the
  \<^verbatim>\<open>finally\<close> block runs: the counter goes down, but the task stays running for good and
  neither a completion nor a failure is emitted or recorded.
\<close>

theorem abandoned_task_stays_running:
  "phase (fst (run_task [Next, Next, Next] a_request (busy_env ''t1'') new_Planner)) = AtYield 3
   \<and> concurrentTasks (snd (run_task [Next, Next, Next] a_request (busy_env ''t1'') new_Planner)) = 1
   \<and> phase (fst (run_task [Next, Next, Next, Return, Return, Next]
                   a_request (busy_env ''t1'') new_Planner)) = Finished
   \<and> map_option status
        (tasks (snd (run_task [Next, Next, Next, Return, Return, Next]
                       a_request (busy_env ''t1'') new_Planner)) ''t1'') = Some running
   \<and> concurrentTasks (snd (run_task [Next, Next, Next, Return, Return, Next]
                              a_request (busy_env ''t1'') new_Planner)) = 0
   \<and> emitted (snd (run_task [Next, Next, Next, Return, Return, Next]
                      a_request (busy_env ''t1'') new_Planner))
       = [TaskCreated ''t1'', TaskStarted ''t1'', TaskStep ''t1'', TaskStep ''t1'']"
  by code_simp

text \<open>
  C10, at the input where the code departs from it. After fifteen steps the last three
  carry errors and the last thought holds a completion phrase. \<^verbatim>\<open>isTaskComplete\<close> gives the
  phrase precedence and returns true without throwing, but as this is iteration 15 the task
  still ends as failed, with the error \<^verbatim>\<open>Maximum iterations reached\<close>.
\<close>

theorem completion_with_errors_on_last_iteration:
  "map_option isTaskComplete
     (task (fst (run_task (replicate 15 Next) a_request erring_env new_Planner)))
     = Some (Inr True)
   \<and> map_option (\<lambda>t. map (\<lambda>s. truthy (step_error s)) (slice_last 3 (steps t)))
        (task (fst (run_task (replicate 15 Next) a_request erring_env new_Planner)))
     = Some [True, True, True]
   \<and> map_option status (task (fst (run_task (replicate 16 Next) a_request erring_env new_Planner)))
       = Some failed
   \<and> map_option task_error
        (task (fst (run_task (replicate 16 Next) a_request erring_env new_Planner)))
       = Some (Some ''Maximum iterations reached'')"
  by code_simp

text \<open>
  C3, at the input where the code departs from it. With the ceiling of 3, four tasks are
  started one after the other and each is left by its consumer after three steps. Each
  \<^verbatim>\<open>return()\<close> lowers the counter but leaves the status of its task at running, so the fourth
  task is admitted and four tasks hold the status running at once.
\<close>

theorem four_tasks_running_at_ceiling_three:
  "maxConcurrentTasks (planner (sys_run abandon4 new_System)) = 3
   \<and> map (\<lambda>ident. map_option status (tasks (planner (sys_run abandon4 new_System)) ident))
        [''a'', ''b'', ''c'', ''d'']
     = [Some running, Some running, Some running, Some running]
   \<and> concurrentTasks (planner (sys_run abandon4 new_System)) = 0"
  by code_simp


section \<open>Properties of the approval queue\<close>

lemma outcomes_append: "outcomes (xs @ ys) = outcomes xs @ outcomes ys"
  by (induction xs rule: outcomes.induct) simp_all

lemma binv_request:
  assumes "binv used b" "rid \<notin> used"
  shows "binv (insert rid used) (requestApproval rid tid tool risk b)"
  using assms
  by (auto simp: binv_def requestApproval_def Let_def outcomes_append split: if_splits)

lemma binv_approve:
  assumes "binv used b"
  shows "binv used (snd (approveAction rid b))"
proof (cases "approvalQueue b rid")
  case None
  with assms show ?thesis by (simp add: approveAction_def)
next
  case (Some req)
  with assms have "approval_id req = rid" by (simp add: binv_def)
  with Some assms show ?thesis
    by (auto simp: binv_def approveAction_def callback_def resolve_def Let_def outcomes_append
             split: if_splits)
qed

lemma binv_deny:
  assumes "binv used b"
  shows "binv used (snd (denyAction rid reason b))"
proof (cases "approvalQueue b rid")
  case None
  with assms show ?thesis by (simp add: denyAction_def)
next
  case (Some req)
  with assms have "approval_id req = rid" by (simp add: binv_def)
  with Some assms show ?thesis
    by (auto simp: binv_def denyAction_def callback_def resolve_def Let_def outcomes_append
             split: if_splits)
qed

lemma binv_timer:
  assumes "binv used b"
  shows "binv used (timer_fires rid b)"
  using assms
  by (auto simp: binv_def timer_fires_def resolve_def outcomes_append split: if_splits)

lemma binv_run:
  assumes "binv used b" "distinct (request_ids cs)" "set (request_ids cs) \<inter> used = {}"
  shows "binv (used \<union> set (request_ids cs)) (broker_run cs b)"
  using assms
proof (induction cs arbitrary: used b)
  case Nil
  then show ?case by simp
next
  case (Cons c cs)
  show ?case
  proof (cases c)
    case (Request rid tid tool risk)
    with Cons.prems have "binv (insert rid used) (broker_step c b)"
      by (simp add: binv_request)
    from Cons.IH[OF this] Cons.prems(2,3) Request show ?thesis by auto
  next
    case (Approve rid)
    with Cons.prems have "binv used (broker_step c b)" by (simp add: binv_approve)
    from Cons.IH[OF this] Cons.prems(2,3) Approve show ?thesis by auto
  next
    case (Deny rid reason)
    with Cons.prems have "binv used (broker_step c b)" by (simp add: binv_deny)
    from Cons.IH[OF this] Cons.prems(2,3) Deny show ?thesis by auto
  next
    case (Timer rid)
    with Cons.prems have "binv used (broker_step c b)" by (simp add: binv_timer)
    from Cons.IH[OF this] Cons.prems(2,3) Timer show ?thesis by auto
  qed
qed

lemma binv_new: "binv {} new_ApprovalBroker"
  by (simp add: binv_def new_ApprovalBroker_def)

lemma tracked_step: "tracked rid b \<Longrightarrow> tracked rid (broker_step c b)"
  by (cases c)
     (auto simp: tracked_def requestApproval_def approveAction_def denyAction_def timer_fires_def
        callback_def resolve_def Let_def split: option.splits if_splits)

lemma tracked_run: "tracked rid b \<Longrightarrow> tracked rid (broker_run cs b)"
  by (induction cs arbitrary: b) (simp_all add: tracked_step)

lemma resolved_step: "rid \<in> fst ` set (resolved b) \<Longrightarrow> rid \<in> fst ` set (resolved (broker_step c b))"
  by (cases c)
     (auto simp: requestApproval_def approveAction_def denyAction_def timer_fires_def
        callback_def resolve_def Let_def split: option.splits if_splits)

lemma resolved_run: "rid \<in> fst ` set (resolved b) \<Longrightarrow> rid \<in> fst ` set (resolved (broker_run cs b))"
  by (induction cs arbitrary: b) (simp_all add: resolved_step)

lemma broker_run_append: "broker_run (xs @ ys) b = broker_run ys (broker_run xs b)"
  by (induction xs arbitrary: b) simp_all

lemma timer_after_request:
  "rid \<in> fst ` set (resolved (broker_run (pre @ Request rid tid tool risk # mid @ Timer rid # post) b))"
proof -
  let ?b1 = "broker_run (pre @ [Request rid tid tool risk]) b"
  have "tracked rid ?b1"
    by (simp add: broker_run_append tracked_def requestApproval_def Let_def)
  then have t: "tracked rid (broker_run mid ?b1)" by (rule tracked_run)
  have "rid \<in> fst ` set (resolved (timer_fires rid (broker_run mid ?b1)))"
    using t by (auto simp: tracked_def timer_fires_def resolve_def)
  then have "rid \<in> fst ` set (resolved (broker_run post (timer_fires rid (broker_run mid ?b1))))"
    by (rule resolved_run)
  then show ?thesis by (simp add: broker_run_append)
qed

text \<open>
  C4. Take any sequence of requests, approvals, denials and timer expiries in which every
  request has a fresh id. Then no request is resolved twice, and each resolution is exactly
  one grant, denial or timeout. For a request that has been resolved, it is no longer in the
  queue, every later \<^verbatim>\<open>approveAction\<close> or \<^verbatim>\<open>denyAction\<close> on its id returns false and changes
  nothing, and its timer does nothing. For a request still pending, whichever of
  \<^verbatim>\<open>approveAction\<close>, \<^verbatim>\<open>denyAction\<close> and the timer comes first removes it from the queue and
  resolves it once. A request whose timer has gone off has been resolved.
\<close>

theorem approval_resolved_at_most_once:
  assumes "distinct (request_ids cs)"
  shows "distinct (map fst (resolved (broker_run cs new_ApprovalBroker)))
     \<and> resolved (broker_run cs new_ApprovalBroker)
         = outcomes (approval_events (broker_run cs new_ApprovalBroker))
     \<and> (\<forall>rid \<in> fst ` set (resolved (broker_run cs new_ApprovalBroker)).
           approvalQueue (broker_run cs new_ApprovalBroker) rid = None
           \<and> approveAction rid (broker_run cs new_ApprovalBroker)
               = (False, broker_run cs new_ApprovalBroker)
           \<and> denyAction rid reason (broker_run cs new_ApprovalBroker)
               = (False, broker_run cs new_ApprovalBroker)
           \<and> timer_fires rid (broker_run cs new_ApprovalBroker)
               = broker_run cs new_ApprovalBroker)
     \<and> (\<forall>rid \<in> dom (approvalQueue (broker_run cs new_ApprovalBroker)).
           rid \<notin> fst ` set (resolved (broker_run cs new_ApprovalBroker))
           \<and> fst (approveAction rid (broker_run cs new_ApprovalBroker)) = True
           \<and> approvalQueue (snd (approveAction rid (broker_run cs new_ApprovalBroker))) rid = None
           \<and> resolved (snd (approveAction rid (broker_run cs new_ApprovalBroker)))
               = resolved (broker_run cs new_ApprovalBroker) @ [(rid, True)]
           \<and> fst (denyAction rid reason (broker_run cs new_ApprovalBroker)) = True
           \<and> approvalQueue (snd (denyAction rid reason (broker_run cs new_ApprovalBroker))) rid = None
           \<and> resolved (snd (denyAction rid reason (broker_run cs new_ApprovalBroker)))
               = resolved (broker_run cs new_ApprovalBroker) @ [(rid, False)]
           \<and> approvalQueue (timer_fires rid (broker_run cs new_ApprovalBroker)) rid = None
           \<and> resolved (timer_fires rid (broker_run cs new_ApprovalBroker))
               = resolved (broker_run cs new_ApprovalBroker) @ [(rid, False)])
     \<and> (\<forall>rid tid tool risk pre mid post.
           cs = pre @ Request rid tid tool risk # mid @ Timer rid # post \<longrightarrow>
           rid \<in> fst ` set (resolved (broker_run cs new_ApprovalBroker)))"
proof -
  define b where "b = broker_run cs new_ApprovalBroker"
  from binv_run[OF binv_new assms] have inv: "binv (set (request_ids cs)) b"
    by (simp add: b_def)
  have 1: "distinct (map fst (resolved b))" "resolved b = outcomes (approval_events b)"
    using inv by (simp_all add: binv_def)
  have 2: "approvalQueue b rid = None \<and> approveAction rid b = (False, b)
           \<and> denyAction rid reason b = (False, b) \<and> timer_fires rid b = b"
    if "rid \<in> fst ` set (resolved b)" for rid
  proof -
    from inv that have "approvalQueue b rid = None" by (auto simp: binv_def)
    then show ?thesis by (simp add: approveAction_def denyAction_def timer_fires_def)
  qed
  have 3: "rid \<notin> fst ` set (resolved b)
           \<and> fst (approveAction rid b) = True
           \<and> approvalQueue (snd (approveAction rid b)) rid = None
           \<and> resolved (snd (approveAction rid b)) = resolved b @ [(rid, True)]
           \<and> fst (denyAction rid reason b) = True
           \<and> approvalQueue (snd (denyAction rid reason b)) rid = None
           \<and> resolved (snd (denyAction rid reason b)) = resolved b @ [(rid, False)]
           \<and> approvalQueue (timer_fires rid b) rid = None
           \<and> resolved (timer_fires rid b) = resolved b @ [(rid, False)]"
    if "rid \<in> dom (approvalQueue b)" for rid
  proof -
    from that obtain req where req: "approvalQueue b rid = Some req" by auto
    with inv have "approval_id req = rid" by (simp add: binv_def)
    moreover from inv that have "rid \<notin> fst ` set (resolved b)" by (auto simp: binv_def)
    ultimately show ?thesis using req
      by (simp add: approveAction_def denyAction_def timer_fires_def callback_def resolve_def
                    Let_def)
  qed
  have 4: "rid \<in> fst ` set (resolved b)"
    if "cs = pre @ Request rid tid tool risk # mid @ Timer rid # post"
    for rid tid tool risk pre mid post
    using that timer_after_request[of rid pre tid tool risk mid post new_ApprovalBroker]
    by (simp add: b_def)
  show ?thesis
    unfolding b_def [symmetric]
  proof (intro conjI ballI allI impI)
    show "distinct (map fst (resolved b))" by (rule 1)
    show "resolved b = outcomes (approval_events b)" by (rule 1)
  qed (use 2 3 4 in \<open>simp_all\<close>)
qed

theorem approval_resolved_at_most_once_witness:
  "distinct (request_ids late_approval)
   \<and> distinct (map fst (resolved (broker_run late_approval new_ApprovalBroker)))
   \<and> resolved (broker_run late_approval new_ApprovalBroker) = [(''r1'', False)]
   \<and> approval_events (broker_run late_approval new_ApprovalBroker)
       = [ApprovalRequestedEvent ''r1'', ApprovalTimeoutLogged ''r1'']
   \<and> fst (approveAction ''r1'' (broker_run late_approval new_ApprovalBroker)) = False"
proof -
  have d: "distinct (request_ids late_approval)"
    by (simp add: late_approval_def)
  have run: "resolved (broker_run late_approval new_ApprovalBroker) = [(''r1'', False)]
     \<and> approval_events (broker_run late_approval new_ApprovalBroker)
         = [ApprovalRequestedEvent ''r1'', ApprovalTimeoutLogged ''r1'']
     \<and> fst (approveAction ''r1'' (broker_run late_approval new_ApprovalBroker)) = False"
    by code_simp
  from approval_resolved_at_most_once [OF d]
  have "distinct (map fst (resolved (broker_run late_approval new_ApprovalBroker)))"
    by (rule conjunct1)
  with d run show ?thesis by simp
qed


section \<open>Properties of tool dispatch\<close>

lemmas registry_defs =
  executeTool_def try_block_def custom_validation_def run_tool_def catch_handler_def

lemma executeTool_fx:
  assumes "tools name = Some tool"
  shows "(SafeParse name \<in> set (snd (executeTool tools name params ctx)))
     \<and> (Validate name \<in> set (snd (executeTool tools name params ctx)) \<longleftrightarrow>
          (\<exists>parsed. safeParse tool params = Inr (Inr parsed) \<and> validate tool \<noteq> None))
     \<and> (Execute name \<in> set (snd (executeTool tools name params ctx)) \<longleftrightarrow>
          (\<exists>parsed. safeParse tool params = Inr (Inr parsed)
             \<and> (case validate tool of None \<Rightarrow> True
                  | Some v \<Rightarrow> (case v parsed of Inl x \<Rightarrow> False | Inr vr \<Rightarrow> valid vr))
             \<and> (approved ctx = Some True \<or> \<not> requiresApproval tool)))
     \<and> ApprovalRequested tid name \<notin> set (snd (executeTool tools name params ctx))
     \<and> (\<exists>m. subseq (snd (executeTool tools name params ctx))
                [SafeParse name, Validate name, Execute name, ToolMetric name m])"
  using assms
  by (auto simp: registry_defs Let_def
           split: sum.splits option.splits prod.splits if_splits thrown.splits)


lemma executeTool_failures:
  assumes "tools name = Some tool"
  shows "(safeParse tool params = Inr (Inl msg) \<longrightarrow>
          fst (executeTool tools name params ctx) = Inr (failure (''Invalid parameters: '' @ msg)))
     \<and> (safeParse tool params = Inr (Inr parsed) \<and> validate tool = Some v
          \<and> v parsed = Inr vr \<and> \<not> valid vr \<longrightarrow>
          fst (executeTool tools name params ctx)
            = Inr (failure (''Validation failed: '' @
                     (case errors vr of None \<Rightarrow> ''undefined'' | Some es \<Rightarrow> join es '', ''))))
     \<and> (safeParse tool params = Inr (Inr parsed)
          \<and> (case validate tool of None \<Rightarrow> True
               | Some v \<Rightarrow> (case v parsed of Inl x \<Rightarrow> False | Inr vr \<Rightarrow> valid vr))
          \<and> requiresApproval tool \<and> approved ctx \<noteq> Some True \<longrightarrow>
          fst (executeTool tools name params ctx) = Inr (failure ''Tool requires approval''))"
  using assms
  by (auto simp: registry_defs Let_def
           split: sum.splits option.splits prod.splits if_splits thrown.splits)

lemma Planner_executeTool_Some:
  assumes "tools name = Some tool"
  shows "Planner_executeTool tools decision tid name params =
     (if requiresApproval tool
      then (if decision
            then (fst (executeTool tools name params \<lparr>taskId = Some tid, approved = Some True\<rparr>),
                  ApprovalRequested tid name
                  # snd (executeTool tools name params \<lparr>taskId = Some tid, approved = Some True\<rparr>))
            else (Inr (failure ''Tool execution denied by user''), [ApprovalRequested tid name]))
      else executeTool tools name params \<lparr>taskId = Some tid, approved = Some True\<rparr>)"
  using assms by (simp add: Planner_executeTool_def split: prod.splits)

text \<open>
  C6, as amended. \<^verbatim>\<open>Planner.executeTool\<close> applies its checks in this order: the lookup of the
  tool; the approval, which is requested for every tool that requires it, whatever the
  parameters are, and which ends the call with \<^verbatim>\<open>Tool execution denied by user\<close> when it is
  denied or times out; then, inside \<^verbatim>\<open>ToolRegistry.executeTool\<close>, the schema validation, the
  custom validator when there is one, and the execution. A denial, a schema mismatch, a
  rejection by the validator and an error object thrown inside the registry's \<^verbatim>\<open>try\<close> block
  each end the call with a failure result; the call returns a result as long as what is
  thrown there is not \<^verbatim>\<open>null\<close> or \<^verbatim>\<open>undefined\<close>. The effects of a call are a subsequence of:
  approval request, schema check, custom validator, execution, metric.
\<close>

theorem Planner_executeTool_order:
  "(tools name = None \<longrightarrow>
      Planner_executeTool tools decision tid name params
        = (Inr (failure (''Tool not found: '' @ name)), []))
   \<and> (tools name = Some tool \<longrightarrow>
        (fst (try_block tool name params \<lparr>taskId = Some tid, approved = Some True\<rparr>) \<noteq> Inl Null
         \<and> fst (try_block tool name params \<lparr>taskId = Some tid, approved = Some True\<rparr>) \<noteq> Inl Undefined \<longrightarrow>
           (\<exists>res. fst (Planner_executeTool tools decision tid name params) = Inr res))
      \<and> ((decision \<or> \<not> requiresApproval tool)
           \<and> fst (try_block tool name params \<lparr>taskId = Some tid, approved = Some True\<rparr>) = Inl (Raised e) \<longrightarrow>
           fst (Planner_executeTool tools decision tid name params)
             = Inr (failure (caught_message e)))
      \<and> (ApprovalRequested tid name \<in> set (snd (Planner_executeTool tools decision tid name params))
           \<longleftrightarrow> requiresApproval tool)
      \<and> (requiresApproval tool \<and> \<not> decision \<longrightarrow>
           Planner_executeTool tools decision tid name params
             = (Inr (failure ''Tool execution denied by user''), [ApprovalRequested tid name]))
      \<and> (SafeParse name \<in> set (snd (Planner_executeTool tools decision tid name params))
           \<longleftrightarrow> (decision \<or> \<not> requiresApproval tool))
      \<and> (Validate name \<in> set (snd (Planner_executeTool tools decision tid name params))
           \<longleftrightarrow> (decision \<or> \<not> requiresApproval tool)
               \<and> (\<exists>parsed. safeParse tool params = Inr (Inr parsed) \<and> validate tool \<noteq> None))
      \<and> (Execute name \<in> set (snd (Planner_executeTool tools decision tid name params))
           \<longleftrightarrow> (decision \<or> \<not> requiresApproval tool)
               \<and> (\<exists>parsed. safeParse tool params = Inr (Inr parsed)
                     \<and> (case validate tool of None \<Rightarrow> True
                          | Some v \<Rightarrow> (case v parsed of Inl x \<Rightarrow> False | Inr vr \<Rightarrow> valid vr))))
      \<and> ((decision \<or> \<not> requiresApproval tool) \<and> safeParse tool params = Inr (Inl msg) \<longrightarrow>
           fst (Planner_executeTool tools decision tid name params)
             = Inr (failure (''Invalid parameters: '' @ msg)))
      \<and> ((decision \<or> \<not> requiresApproval tool) \<and> safeParse tool params = Inr (Inr parsed)
           \<and> validate tool = Some v \<and> v parsed = Inr vr \<and> \<not> valid vr \<longrightarrow>
           fst (Planner_executeTool tools decision tid name params)
             = Inr (failure (''Validation failed: '' @
                      (case errors vr of None \<Rightarrow> ''undefined'' | Some es \<Rightarrow> join es '', ''))))
      \<and> (\<exists>m. subseq (snd (Planner_executeTool tools decision tid name params))
                 [ApprovalRequested tid name, SafeParse name, Validate name, Execute name,
                  ToolMetric name m]))"
proof (intro conjI impI)
  assume "tools name = None"
  then show "Planner_executeTool tools decision tid name params
        = (Inr (failure (''Tool not found: '' @ name)), [])"
    by (simp add: Planner_executeTool_def)
next
  assume t: "tools name = Some tool"
  let ?ctx = "\<lparr>taskId = Some tid, approved = Some True\<rparr>"
  note P = Planner_executeTool_Some[of tools name tool decision tid params, OF t]
  note fx = executeTool_fx[of tools name tool params ?ctx tid, OF t]
  {
    assume a: "fst (try_block tool name params ?ctx) \<noteq> Inl Null
         \<and> fst (try_block tool name params ?ctx) \<noteq> Inl Undefined"
    have "\<exists>res. fst (executeTool tools name params ?ctx) = Inr res"
    proof (cases "fst (try_block tool name params ?ctx)")
      case (Inl x)
      with a obtain err where "x = Raised err" by (cases x) auto
      with Inl t executeTool_catches [of tools name tool params ?ctx x] show ?thesis
        by (simp add: catch_handler_def)
    next
      case (Inr r)
      with t executeTool_passes [of tools name tool params ?ctx r] show ?thesis by simp
    qed
    then show "\<exists>res. fst (Planner_executeTool tools decision tid name params) = Inr res"
      by (auto simp: P)
  }
  {
    assume a: "(decision \<or> \<not> requiresApproval tool)
           \<and> fst (try_block tool name params ?ctx) = Inl (Raised e)"
    with t executeTool_catches [of tools name tool params ?ctx "Raised e"]
    have "fst (executeTool tools name params ?ctx) = Inr (failure (caught_message e))"
      by (simp add: catch_handler_def)
    with a show "fst (Planner_executeTool tools decision tid name params)
             = Inr (failure (caught_message e))"
      using P by auto
  }
  show "ApprovalRequested tid name \<in> set (snd (Planner_executeTool tools decision tid name params))
           \<longleftrightarrow> requiresApproval tool"
    using fx by (simp add: P)
  show "SafeParse name \<in> set (snd (Planner_executeTool tools decision tid name params))
           \<longleftrightarrow> (decision \<or> \<not> requiresApproval tool)"
    using fx by (simp add: P)
  show "Validate name \<in> set (snd (Planner_executeTool tools decision tid name params))
           \<longleftrightarrow> (decision \<or> \<not> requiresApproval tool)
               \<and> (\<exists>parsed. safeParse tool params = Inr (Inr parsed) \<and> validate tool \<noteq> None)"
    using fx by (simp add: P)
  show "Execute name \<in> set (snd (Planner_executeTool tools decision tid name params))
           \<longleftrightarrow> (decision \<or> \<not> requiresApproval tool)
               \<and> (\<exists>parsed. safeParse tool params = Inr (Inr parsed)
                     \<and> (case validate tool of None \<Rightarrow> True
                          | Some v \<Rightarrow> (case v parsed of Inl x \<Rightarrow> False | Inr vr \<Rightarrow> valid vr)))"
    using fx by (simp add: P)
  show "\<exists>m. subseq (snd (Planner_executeTool tools decision tid name params))
                 [ApprovalRequested tid name, SafeParse name, Validate name, Execute name,
                  ToolMetric name m]"
  proof -
    from fx obtain m where "subseq (snd (executeTool tools name params ?ctx))
                [SafeParse name, Validate name, Execute name, ToolMetric name m]"
      by blast
    then have "subseq (snd (Planner_executeTool tools decision tid name params))
                 [ApprovalRequested tid name, SafeParse name, Validate name, Execute name,
                  ToolMetric name m]"
      by (auto simp: P intro: list_emb_Cons)
    then show ?thesis ..
  qed
  {
    assume "requiresApproval tool \<and> \<not> decision"
    then show "Planner_executeTool tools decision tid name params
             = (Inr (failure ''Tool execution denied by user''), [ApprovalRequested tid name])"
      using P by simp
  }
  {
    assume "(decision \<or> \<not> requiresApproval tool) \<and> safeParse tool params = Inr (Inl msg)"
    then show "fst (Planner_executeTool tools decision tid name params)
             = Inr (failure (''Invalid parameters: '' @ msg))"
      using executeTool_failures[where tools = tools and name = name and tool = tool and params = params and ctx = ?ctx and msg = msg, OF t] P by auto
  }
  {
    assume "(decision \<or> \<not> requiresApproval tool) \<and> safeParse tool params = Inr (Inr parsed)
           \<and> validate tool = Some v \<and> v parsed = Inr vr \<and> \<not> valid vr"
    then show "fst (Planner_executeTool tools decision tid name params)
             = Inr (failure (''Validation failed: '' @
                      (case errors vr of None \<Rightarrow> ''undefined'' | Some es \<Rightarrow> join es '', '')))"
      using executeTool_failures[where tools = tools and name = name and tool = tool and params = params and ctx = ?ctx and parsed = parsed and v = v and vr = vr, OF t] P by auto
  }
qed


theorem Planner_executeTool_order_witness:
  "example_tools ''exec'' = Some exec_tool
   \<and> requiresApproval exec_tool
   \<and> ApprovalRequested ''t1'' ''exec''
        \<in> set (snd (Planner_executeTool example_tools True ''t1'' ''exec'' ''ls''))
   \<and> Planner_executeTool example_tools True ''t1'' ''exec'' ''ls''
       = (Inr \<lparr>success = True, data = Some ''Command output here'', error = None\<rparr>,
          [ApprovalRequested ''t1'' ''exec'', SafeParse ''exec'', Validate ''exec'',
           Execute ''exec'', ToolMetric ''exec'' True])"
proof -
  have t: "example_tools ''exec'' = Some exec_tool"
    by (simp add: example_tools_def)
  have r: "requiresApproval exec_tool"
    by (simp add: exec_tool_def)
  have run: "Planner_executeTool example_tools True ''t1'' ''exec'' ''ls''
       = (Inr \<lparr>success = True, data = Some ''Command output here'', error = None\<rparr>,
          [ApprovalRequested ''t1'' ''exec'', SafeParse ''exec'', Validate ''exec'',
           Execute ''exec'', ToolMetric ''exec'' True])"
    by code_simp
  from Planner_executeTool_order
         [where tools = example_tools and name = "''exec''" and decision = True
            and tid = "''t1''" and params = "''ls''" and tool = exec_tool] t r
  have "ApprovalRequested ''t1'' ''exec''
        \<in> set (snd (Planner_executeTool example_tools True ''t1'' ''exec'' ''ls''))"
    by blast
  with t r run show ?thesis by simp
qed

text \<open>
  C6 as stated fails: approval is requested before the parameters are validated. For the
  built-in \<^verbatim>\<open>exec\<close> tool and a command its validator rejects, the approval request is made;
  when it is granted the call then fails in the custom validation, and when it is denied the
  parameters are never validated at all.
\<close>

theorem approval_before_validation_counterexample:
  "exec_validate ''sudo rm -rf /''
     = Inr \<lparr>valid = False, errors = Some [''Potentially dangerous command detected'']\<rparr>
   \<and> Planner_executeTool example_tools True ''t1'' ''exec'' ''sudo rm -rf /''
       = (Inr (failure ''Validation failed: Potentially dangerous command detected''),
          [ApprovalRequested ''t1'' ''exec'', SafeParse ''exec'', Validate ''exec'',
           ToolMetric ''exec'' False])
   \<and> Planner_executeTool example_tools False ''t1'' ''exec'' ''sudo rm -rf /''
       = (Inr (failure ''Tool execution denied by user''), [ApprovalRequested ''t1'' ''exec''])"
  by code_simp

section \<open>Properties of the provider client\<close>

lemma parseResponse_usage: "parseResponse jp completion = Inr r \<Longrightarrow> usage r = None"
  by (auto simp: parseResponse_def Let_def split: list.splits option.splits sum.splits)

lemma attempt_streamed:
  "attempt e key True k model c =
     (case create_stream e k model of
        Inl err \<Rightarrow>
          (if shouldRetry err then Continue err else Thrown err,
           called model True [failure_metric model] c)
      | Inr (Inl err) \<Rightarrow> (Thrown err, called model True [] c)
      | Inr (Inr r) \<Rightarrow> (Returned r, called model True (success_metric model r) c))"
  by (simp add: attempt_def catch_attempt_def failure_metric_def success_metric_def
        record_success_def called_def Let_def split: sum.splits option.splits)

lemma attempt_plain:
  "attempt e key False k model c =
     (case attempt_result e False k model of
        Inl err \<Rightarrow>
          (if shouldRetry err then Continue err else Thrown err,
           called model False [failure_metric model] c)
      | Inr (Inl err) \<Rightarrow> (Thrown err, called model False [] c)
      | Inr (Inr r) \<Rightarrow>
          (Returned r,
           (called model False (success_metric model r) c)
             \<lparr>cache := cache_set (cache c) key r (cache_set_time e)\<rparr>))"
proof (cases "create e k model")
  case (Inl err)
  then show ?thesis
    by (simp add: attempt_def attempt_result_def catch_attempt_def failure_metric_def
          called_def Let_def)
next
  case (Inr completion)
  show ?thesis
  proof (cases "parseResponse (json_parse e) completion")
    case (Inl err)
    with Inr show ?thesis
      by (simp add: attempt_def attempt_result_def catch_attempt_def failure_metric_def
            called_def Let_def)
  next
    case r: (Inr response)
    from parseResponse_usage[OF r] have u: "usage response = None" .
    have same: "response\<lparr>usage := None\<rparr> = response" using u by simp
    show ?thesis
    proof (cases "completion_usage completion")
      case None
      with Inr r same have ar: "attempt_result e False k model = Inr (Inr response)"
        by (simp add: attempt_result_def)
      from Inr r None u show ?thesis
        by (simp add: ar attempt_def success_metric_def called_def Let_def)
    next
      case (Some us)
      with Inr r show ?thesis
        by (simp add: attempt_def attempt_result_def success_metric_def record_success_def
              called_def Let_def)
    qed
  qed
qed

lemma attempt_any:
  "attempt e key stream k model c =
     (case attempt_result e stream k model of
        Inl err \<Rightarrow>
          (if shouldRetry err then Continue err else Thrown err,
           called model stream [failure_metric model] c)
      | Inr (Inl err) \<Rightarrow> (Thrown err, called model stream [] c)
      | Inr (Inr r) \<Rightarrow>
          (Returned r,
           (called model stream (success_metric model r) c)
             \<lparr>cache := (if stream then cache c
                         else cache_set (cache c) key r (cache_set_time e))\<rparr>))"
proof (cases stream)
  case True
  then have s: "stream = True" by simp
  show ?thesis
    unfolding s
    by (simp add: attempt_streamed attempt_result_def called_def split: sum.splits)
next
  case False
  then have s: "stream = False" by simp
  show ?thesis
    unfolding s by (simp add: attempt_plain split: sum.splits)
qed

lemma called_tried: "called m stream ms (tried pre stream ms' c) = tried (pre @ [m]) stream (ms' @ ms) c"
  by (simp add: called_def tried_def)




lemma chat_miss:
  assumes "stream \<or> fst (cache_get (cache c) (getCacheKey c messages tools) (cache_get_time e)) = None"
  shows "chat e messages tools stream c
       = try_models e (getCacheKey c messages tools) stream 0
           (openRouterModel c # fallbackModels c) None (after_lookup e messages tools stream c)"
proof (cases stream)
  case True
  then show ?thesis by (simp add: chat_def after_lookup_def Let_def)
next
  case False
  with assms obtain m where
    "cache_get (cache c) (getCacheKey c messages tools) (cache_get_time e) = (None, m)"
    by (cases "cache_get (cache c) (getCacheKey c messages tools) (cache_get_time e)") auto
  with False show ?thesis by (simp add: chat_def after_lookup_def Let_def)
qed

lemma after_lookup_logs:
  "provider_calls (after_lookup e messages tools stream c) = provider_calls c"
  "llm_metrics (after_lookup e messages tools stream c) = llm_metrics c"
  by (simp_all add: after_lookup_def)





lemma try_models_caches:
  assumes "try_models e key False k ms le c = (Inr r, c')"
  shows "cache c' key = Some (r, cache_set_time e + 300 * 1000)
     \<and> openRouterModel c' = openRouterModel c \<and> fallbackModels c' = fallbackModels c
     \<and> provider_calls c' \<noteq> provider_calls c"
proof -
  have "cache c' key = Some (r, cache_set_time e + 300 * 1000)
     \<and> openRouterModel c' = openRouterModel c \<and> fallbackModels c' = fallbackModels c
     \<and> length (provider_calls c) < length (provider_calls c')"
    using assms
  proof (induction ms arbitrary: k le c)
    case Nil
    then show ?case by simp
  next
    case (Cons m ms)
    show ?case
    proof (cases "attempt_result e False k m")
      case (Inl err)
      with Cons.prems have sr: "shouldRetry err"
        and "try_models e key False (Suc k) ms (Some err) (called m False [failure_metric m] c)
              = (Inr r, c')"
        by (auto simp: attempt_any split: if_splits)
      from Cons.IH[OF this(2)] show ?thesis by (simp add: called_def)
    next
      case (Inr x)
      with Cons.prems show ?thesis
        by (cases x) (auto simp: attempt_any called_def cache_set_def)
    qed
  qed
  then show ?thesis by auto
qed

lemma try_models_failed_cache:
  assumes "try_models e key stream k ms le c = (Inl err, c')"
  shows "cache c' = cache c"
  using assms
proof (induction ms arbitrary: k le c)
  case Nil
  then show ?case by simp
next
  case (Cons m ms)
  show ?case
  proof (cases "attempt_result e stream k m")
    case (Inl er)
    show ?thesis
    proof (cases "shouldRetry er")
      case True
      with Inl Cons.prems
      have "try_models e key stream (Suc k) ms (Some er) (called m stream [failure_metric m] c)
              = (Inl err, c')"
        by (simp add: attempt_any)
      from Cons.IH[OF this] show ?thesis by (simp add: called_def)
    next
      case False
      with Inl Cons.prems show ?thesis by (auto simp: attempt_any called_def)
    qed
  next
    case (Inr x)
    with Cons.prems show ?thesis
      by (cases x) (auto simp: attempt_any called_def)
  qed
qed

lemma chat_hit:
  assumes "cache c (getCacheKey c messages tools) = Some (r, expires)"
    and "cache_get_time e \<le> expires"
  shows "chat e messages tools False c = (Inr r, c)"
  using assms by (simp add: chat_def cache_get_def Let_def)

lemma chat_hit_silent:
  assumes "fst (cache_get (cache c) (getCacheKey c messages tools) (cache_get_time e)) = Some r"
  shows "chat e messages tools False c = (Inr r, c)"
  using assms
  by (auto simp: chat_def cache_get_def Let_def split: option.splits if_splits)

lemma try_models_stream_cache:
  "try_models e key True k ms le (c\<lparr>cache := m\<rparr>)
     = (fst (try_models e key True k ms le c), (snd (try_models e key True k ms le c))\<lparr>cache := m\<rparr>)"
proof (induction ms arbitrary: k le c)
  case Nil
  show ?case by simp
next
  case (Cons mo ms)
  have upd: "called mo True xs (c\<lparr>cache := m\<rparr>) = (called mo True xs c)\<lparr>cache := m\<rparr>" for xs
    by (simp add: called_def)
  show ?case
  proof (cases "create_stream e k mo")
    case (Inl er)
    then show ?thesis by (simp add: attempt_streamed upd Cons.IH)
  next
    case (Inr x)
    then show ?thesis by (cases x) (simp_all add: attempt_streamed upd)
  qed
qed

lemma try_models_stream_keeps:
  "cache (snd (try_models e key True k ms le c)) = cache c"
proof (induction ms arbitrary: k le c)
  case Nil
  show ?case by simp
next
  case (Cons mo ms)
  show ?case
  proof (cases "create_stream e k mo")
    case (Inl er)
    then show ?thesis by (simp add: attempt_streamed Cons.IH) (simp add: called_def)
  next
    case (Inr x)
    then show ?thesis by (cases x) (simp_all add: attempt_streamed called_def)
  qed
qed

lemma attempt_keeps:
  "openRouterModel (snd (attempt e key stream k m c)) = openRouterModel c
   \<and> fallbackModels (snd (attempt e key stream k m c)) = fallbackModels c
   \<and> provider_calls (snd (attempt e key stream k m c)) = provider_calls c @ [(m, stream)]"
  by (cases "attempt_result e stream k m")
     (auto simp: attempt_any called_def split: sum.splits)

lemma try_models_requests:
  "\<exists>n \<le> length ms.
     (ms \<noteq> [] \<longrightarrow> 0 < n)
     \<and> provider_calls (snd (try_models e key stream k ms le c))
         = provider_calls c @ map (\<lambda>m. (m, stream)) (take n ms)
     \<and> openRouterModel (snd (try_models e key stream k ms le c)) = openRouterModel c
     \<and> fallbackModels (snd (try_models e key stream k ms le c)) = fallbackModels c"
proof (induction ms arbitrary: k le c)
  case Nil
  show ?case by simp
next
  case (Cons m ms)
  obtain out c' where at: "attempt e key stream k m c = (out, c')"
    by (cases "attempt e key stream k m c") auto
  with attempt_keeps[of e key stream k m c]
  have keeps: "openRouterModel c' = openRouterModel c" "fallbackModels c' = fallbackModels c"
    "provider_calls c' = provider_calls c @ [(m, stream)]" by simp_all
  show ?case
  proof (cases out)
    case (Returned r)
    with at keeps show ?thesis by (intro exI[of _ 1]) simp
  next
    case (Thrown err)
    with at keeps show ?thesis by (intro exI[of _ 1]) simp
  next
    case (Continue err)
    from Cons.IH[of "Suc k" "Some err" c'] obtain n where
      n: "n \<le> length ms"
         "provider_calls (snd (try_models e key stream (Suc k) ms (Some err) c'))
            = provider_calls c' @ map (\<lambda>m. (m, stream)) (take n ms)"
         "openRouterModel (snd (try_models e key stream (Suc k) ms (Some err) c')) = openRouterModel c'"
         "fallbackModels (snd (try_models e key stream (Suc k) ms (Some err) c')) = fallbackModels c'"
      by blast
    with Continue at keeps show ?thesis by (intro exI[of _ "Suc n"]) simp
  qed
qed

text \<open>
  The requests of one call go to the configured models in order, one request for each
  model tried.
\<close>

lemma chat_requests:
  "\<exists>n \<le> length (openRouterModel c # fallbackModels c).
     provider_calls (snd (chat e messages tools stream c))
       = provider_calls c @ map (\<lambda>m. (m, stream)) (take n (openRouterModel c # fallbackModels c))"
proof (cases "stream \<or> fst (cache_get (cache c) (getCacheKey c messages tools) (cache_get_time e)) = None")
  case True
  from try_models_requests[of "openRouterModel c # fallbackModels c" e
         "getCacheKey c messages tools" stream 0 None "after_lookup e messages tools stream c"]
  show ?thesis
    unfolding chat_miss[OF True] by (auto simp: after_lookup_logs)
next
  case False
  then obtain r where "fst (cache_get (cache c) (getCacheKey c messages tools) (cache_get_time e)) = Some r"
    and ns: "\<not> stream" by auto
  from chat_hit_silent[OF this(1)] ns show ?thesis by (intro exI[of _ 0]) simp
qed

text \<open>After a call that failed, the next call with the same payload goes to the provider.\<close>

lemma chat_after_failure:
  assumes "chat e1 messages tools False c = (Inl err, c1)"
  shows "provider_calls (snd (chat e2 messages tools False c1)) \<noteq> provider_calls c1"
proof -
  let ?key = "getCacheKey c messages tools"
  let ?look = "cache_get (cache c) ?key (cache_get_time e1)"
  have miss: "fst ?look = None"
  proof (cases "fst ?look")
    case None
    then show ?thesis .
  next
    case (Some r')
    from chat_hit_silent[OF this] assms show ?thesis by simp
  qed
  then have run: "chat e1 messages tools False c
       = try_models e1 ?key False 0 (openRouterModel c # fallbackModels c) None
           (after_lookup e1 messages tools False c)"
    by (intro chat_miss) simp
  with assms have tm: "try_models e1 ?key False 0 (openRouterModel c # fallbackModels c) None
           (after_lookup e1 messages tools False c) = (Inl err, c1)" by simp
  from try_models_failed_cache[OF tm]
  have "cache c1 = snd ?look" by (simp add: after_lookup_def)
  with miss have nokey: "cache c1 ?key = None"
    by (auto simp: cache_get_def split: option.splits if_splits)
  from try_models_requests[of "openRouterModel c # fallbackModels c" e1 ?key False 0 None
         "after_lookup e1 messages tools False c"] tm
  have same: "openRouterModel c1 = openRouterModel c"
    by (auto simp: after_lookup_def)
  with nokey have miss2: "False \<or> fst (cache_get (cache c1) (getCacheKey c1 messages tools) (cache_get_time e2)) = None"
    by (simp add: getCacheKey_def cache_get_def)
  from try_models_requests[of "openRouterModel c1 # fallbackModels c1" e2
         "getCacheKey c1 messages tools" False 0 None "after_lookup e2 messages tools False c1"]
  show ?thesis
    unfolding chat_miss[OF miss2] by (auto simp: after_lookup_logs)
qed

text \<open>
  C8, as amended. When a call of \<^verbatim>\<open>chat\<close> that is not streamed went to the provider and
  returned a response, a second call with the same messages and tools that is not streamed
  and reads the cache no later than 300 seconds after the response was stored returns that
  response and leaves the client as it is: the provider is not contacted again. A call
  that returned a response without going to the provider was itself served from the cache.
  When the first call fails nothing is stored, and the second call goes to the provider
  again. A streamed call leaves the cache as it is, and its result does not depend on the
  cache. The requests of any call go to the configured models in order, one for each model
  it tried.
\<close>

theorem chat_cache:
  "(chat e1 messages tools False c = (Inr r, c1) \<and> provider_calls c1 \<noteq> provider_calls c
      \<and> cache_get_time e2 \<le> cache_set_time e1 + 300 * 1000 \<longrightarrow>
      chat e2 messages tools False c1 = (Inr r, c1))
   \<and> (chat e1 messages tools False c = (Inr r, c1) \<and> provider_calls c1 = provider_calls c \<longrightarrow>
        c1 = c \<and> fst (cache_get (cache c) (getCacheKey c messages tools) (cache_get_time e1)) = Some r)
   \<and> (chat e1 messages tools False c = (Inl err, c1) \<longrightarrow>
        cache c1 = snd (cache_get (cache c) (getCacheKey c messages tools) (cache_get_time e1)))
   \<and> cache (snd (chat e1 messages tools True c)) = cache c
   \<and> chat e1 messages tools True (c\<lparr>cache := m\<rparr>)
       = (fst (chat e1 messages tools True c), (snd (chat e1 messages tools True c))\<lparr>cache := m\<rparr>)
   \<and> (chat e1 messages tools False c = (Inl err, c1) \<longrightarrow>
        provider_calls (snd (chat e2 messages tools False c1)) \<noteq> provider_calls c1)
   \<and> (\<exists>n \<le> length (openRouterModel c # fallbackModels c).
        provider_calls (snd (chat e1 messages tools stream c))
          = provider_calls c
            @ map (\<lambda>model. (model, stream)) (take n (openRouterModel c # fallbackModels c)))"
proof (intro conjI impI)
  let ?key = "getCacheKey c messages tools"
  let ?look = "cache_get (cache c) ?key (cache_get_time e1)"
  {
    assume a: "chat e1 messages tools False c = (Inr r, c1) \<and> provider_calls c1 \<noteq> provider_calls c
      \<and> cache_get_time e2 \<le> cache_set_time e1 + 300 * 1000"
    have miss: "fst ?look = None"
    proof (cases "fst ?look")
      case None
      then show ?thesis .
    next
      case (Some r')
      from chat_hit_silent[OF this] a show ?thesis by simp
    qed
    then have "chat e1 messages tools False c
       = try_models e1 ?key False 0 (openRouterModel c # fallbackModels c) None
           (after_lookup e1 messages tools False c)"
      by (intro chat_miss) simp
    with a have "try_models e1 ?key False 0 (openRouterModel c # fallbackModels c) None
           (after_lookup e1 messages tools False c) = (Inr r, c1)" by simp
    from try_models_caches[OF this]
    have "cache c1 (getCacheKey c1 messages tools) = Some (r, cache_set_time e1 + 300 * 1000)"
      by (simp add: getCacheKey_def after_lookup_def)
    from chat_hit[OF this, of e2] a
    show "chat e2 messages tools False c1 = (Inr r, c1)" by simp
  }
  {
    assume a: "chat e1 messages tools False c = (Inr r, c1) \<and> provider_calls c1 = provider_calls c"
    have hit: "fst ?look = Some r \<and> c1 = c"
    proof (cases "fst ?look")
      case None
      then have "chat e1 messages tools False c
       = try_models e1 ?key False 0 (openRouterModel c # fallbackModels c) None
           (after_lookup e1 messages tools False c)"
        by (intro chat_miss) simp
      with a have "try_models e1 ?key False 0 (openRouterModel c # fallbackModels c) None
           (after_lookup e1 messages tools False c) = (Inr r, c1)" by simp
      from try_models_caches[OF this] a show ?thesis by (simp add: after_lookup_def)
    next
      case (Some r')
      from chat_hit_silent[OF this] a Some show ?thesis by simp
    qed
    then show "c1 = c" and "fst ?look = Some r" by simp_all
  }
  {
    assume a: "chat e1 messages tools False c = (Inl err, c1)"
    have miss: "fst ?look = None"
    proof (cases "fst ?look")
      case None
      then show ?thesis .
    next
      case (Some r')
      from chat_hit_silent[OF this] a show ?thesis by simp
    qed
    then have "chat e1 messages tools False c
       = try_models e1 ?key False 0 (openRouterModel c # fallbackModels c) None
           (after_lookup e1 messages tools False c)"
      by (intro chat_miss) simp
    with a have "try_models e1 ?key False 0 (openRouterModel c # fallbackModels c) None
           (after_lookup e1 messages tools False c) = (Inl err, c1)" by simp
    from try_models_failed_cache[OF this]
    show "cache c1 = snd ?look" by (simp add: after_lookup_def)
  }
  show "cache (snd (chat e1 messages tools True c)) = cache c"
    by (simp add: chat_def Let_def try_models_stream_keeps del: try_models.simps)
  show "chat e1 messages tools True (c\<lparr>cache := m\<rparr>)
       = (fst (chat e1 messages tools True c), (snd (chat e1 messages tools True c))\<lparr>cache := m\<rparr>)"
    by (simp add: chat_def Let_def getCacheKey_def try_models_stream_cache del: try_models.simps)
  {
    assume "chat e1 messages tools False c = (Inl err, c1)"
    then show "provider_calls (snd (chat e2 messages tools False c1)) \<noteq> provider_calls c1"
      by (rule chat_after_failure)
  }
  show "\<exists>n \<le> length (openRouterModel c # fallbackModels c).
        provider_calls (snd (chat e1 messages tools stream c))
          = provider_calls c
            @ map (\<lambda>model. (model, stream)) (take n (openRouterModel c # fallbackModels c))"
    by (rule chat_requests)
qed

theorem chat_cache_witness:
  "fst (chat fallback_env ''hello'' None False client0)
     = Inr \<lparr>content = ''Task complete'', toolCalls = None, usage = None\<rparr>
   \<and> provider_calls (snd (chat fallback_env ''hello'' None False client0)) \<noteq> provider_calls client0
   \<and> cache_get_time down_env \<le> cache_set_time fallback_env + 300 * 1000
   \<and> fst (chat down_env ''hello'' None False (snd (chat fallback_env ''hello'' None False client0)))
       = Inr \<lparr>content = ''Task complete'', toolCalls = None, usage = None\<rparr>
   \<and> provider_calls
        (snd (chat down_env ''hello'' None False (snd (chat fallback_env ''hello'' None False client0))))
       = provider_calls (snd (chat fallback_env ''hello'' None False client0))"
proof -
  let ?r = "\<lparr>content = ''Task complete'', toolCalls = None, usage = None\<rparr> :: string LLMResponse"
  let ?c1 = "snd (chat fallback_env ''hello'' None False client0)"
  have first: "fst (chat fallback_env ''hello'' None False client0) = Inr ?r
     \<and> provider_calls ?c1 \<noteq> provider_calls client0
     \<and> cache_get_time down_env \<le> cache_set_time fallback_env + 300 * 1000"
    by code_simp
  then have "chat fallback_env ''hello'' None False client0 = (Inr ?r, ?c1)"
    by (simp add: prod_eq_iff)
  with first chat_cache
         [where ?e1.0 = fallback_env and ?e2.0 = down_env and messages = "''hello''"
            and tools = None and c = client0 and ?c1.0 = ?c1 and r = ?r]
  have "chat down_env ''hello'' None False ?c1 = (Inr ?r, ?c1)"
    by blast
  with first show ?thesis by simp
qed

text \<open>
  C8 as stated fails: two identical calls within the lifetime of a cache entry can reach
  the provider more than once. When every model is rate limited the first call fails,
  nothing is cached, and the second call, two seconds later, asks both models again: four
  requests. And a first call that succeeds through the fallback has made two requests by
  itself, though the second call then makes none.
\<close>

theorem chat_cache_counterexample:
  "fst (chat down_env ''hello'' None False client0)
     = Inl (Error ''All models failed. Last error: Rate limit exceeded'')
   \<and> cache_get_time down_env - cache_set_time down_env \<le> 300 * 1000
   \<and> provider_calls
        (snd (chat down_env ''hello'' None False (snd (chat down_env ''hello'' None False client0))))
       = [(''anthropic/claude-3.5-sonnet'', False), (''openai/gpt-4o'', False),
          (''anthropic/claude-3.5-sonnet'', False), (''openai/gpt-4o'', False)]
   \<and> provider_calls (snd (chat fallback_env ''hello'' None False client0))
       = [(''anthropic/claude-3.5-sonnet'', False), (''openai/gpt-4o'', False)]
   \<and> provider_calls
        (snd (chat down_env ''hello'' None False (snd (chat fallback_env ''hello'' None False client0))))
       = [(''anthropic/claude-3.5-sonnet'', False), (''openai/gpt-4o'', False)]"
  by code_simp

end
